theory Spec2Isabelle
  imports Complex_Main "HOL-Library.Sublist" "HOL-Library.AList"
begin

section \<open>The cache controller: public/sw.js\<close>

subsection \<open>Responses, requests, the network and the cache storage\<close>

text \<open>
  A \<open>Response\<close> is its status line, the field names of its \<open>Vary\<close> header and its
  body. \<open>Response.ok\<close> is true for the statuses 200 to 299.
\<close>

record response =
  status :: nat
  statusText :: string
  vary :: "string list"
  body :: string

definition ok :: "response \<Rightarrow> bool" where
  "ok r = (200 \<le> status r \<and> status r \<le> 299)"

text \<open>
  What an \<open>await\<close> can throw in sw.js: the rejection of \<open>fetch\<close> (the network is
  unreachable), the rejection of \<open>cache.put\<close> (the cache refuses the response), or an
  \<open>Error\<close> made by the script, with its message.
\<close>

datatype js_error = NetworkFailure | PutRefused | Error string

text \<open>
  \<open>fetch(url)\<close> either rejects or resolves with the server's response, whatever its
  status. The network is a function from the URL to that outcome.
\<close>

datatype fetch_result = Rejected | Fulfilled response

type_synonym network = "string \<Rightarrow> fetch_result"

text \<open>
  A request of the page's own origin: \<open>request.method\<close> (the field \<open>http_method\<close>), \<open>request.mode\<close>, and the URL
  as its path (\<open>new URL(request.url).pathname\<close>) and its query string. The cache key of
  a request is its URL.
\<close>

record request =
  http_method :: string
  pathname :: string
  search :: string
  mode :: string

definition url :: "request \<Rightarrow> string" where
  "url req = pathname req @ search req"

text \<open>
  \<open>caches\<close> (the CacheStorage) is the list of the named caches in the order of their
  creation, each cache the list of its entries, keyed by URL.
  \<^item> \<open>caches.open(name)\<close> creates the cache when there is none of that name;
  \<^item> \<open>cache.put(key, response)\<close> rejects a response of status 206 and a response whose
    \<open>Vary\<close> header holds \<open>*\<close>; any other response replaces the entry stored under the
    key, or is added as a new entry;
  \<^item> \<open>caches.match(key)\<close> asks each cache in turn and answers with the first entry found;
  \<^item> \<open>caches.delete(name)\<close> removes the cache of that name;
  \<^item> \<open>caches.keys()\<close> lists the names.
  The store is taken to have room for what is written, and a request to carry the
  header values of the request an entry was stored under, so that \<open>Vary\<close> never hides
  an entry from \<open>caches.match\<close>.
\<close>

type_synonym cache = "(string \<times> response) list"

type_synonym cache_storage = "(string \<times> cache) list"

definition caches_open :: "string \<Rightarrow> cache_storage \<Rightarrow> cache_storage" where
  "caches_open name st = (if name \<in> fst ` set st then st else st @ [(name, [])])"

definition put_refused :: "response \<Rightarrow> bool" where
  "put_refused r = (status r = 206 \<or> ''*'' \<in> set (vary r))"

definition write_entry :: "string \<Rightarrow> string \<Rightarrow> response \<Rightarrow> cache_storage \<Rightarrow> cache_storage" where
  "write_entry name key r st = AList.map_entry name (AList.update key r) st"

definition cache_put ::
  "string \<Rightarrow> string \<Rightarrow> response \<Rightarrow> cache_storage \<Rightarrow> js_error + cache_storage" where
  "cache_put name key r st =
     (if put_refused r then Inl PutRefused else Inr (write_entry name key r st))"

text \<open>
  A \<open>cache.put\<close> that is not awaited: when it rejects, nothing is written and nothing
  catches the rejection.
\<close>

definition put_not_awaited :: "string \<Rightarrow> string \<Rightarrow> response \<Rightarrow> cache_storage \<Rightarrow> cache_storage" where
  "put_not_awaited name key r st =
     (case cache_put name key r st of Inr st' \<Rightarrow> st' | Inl err \<Rightarrow> st)"

fun caches_match :: "cache_storage \<Rightarrow> string \<Rightarrow> response option" where
  "caches_match [] key = None"
| "caches_match ((name, c) # st) key =
     (case map_of c key of Some r \<Rightarrow> Some r | None \<Rightarrow> caches_match st key)"

definition caches_delete :: "string \<Rightarrow> cache_storage \<Rightarrow> cache_storage" where
  "caches_delete name st = AList.delete name st"

definition caches_keys :: "cache_storage \<Rightarrow> string list" where
  "caches_keys st = map fst st"

definition cache_entries :: "cache_storage \<Rightarrow> string \<Rightarrow> cache" where
  "cache_entries st name = (case map_of st name of Some c \<Rightarrow> c | None \<Rightarrow> [])"

subsection \<open>Constants\<close>

definition CACHE_NAME :: string where
  "CACHE_NAME = ''desktop-clock-v1''"

definition STATIC_CACHE_NAME :: string where
  "STATIC_CACHE_NAME = ''desktop-clock-static-v1''"

definition WALLPAPER_CACHE_NAME :: string where
  "WALLPAPER_CACHE_NAME = ''desktop-clock-wallpapers-v1''"

subsection \<open>The fetch handlers\<close>

text \<open>
  A handler is an async function. Its model returns what the promise settles with
  (\<open>Inl\<close>: rejected with the error thrown, \<open>Inr\<close>: resolved with the response), the
  cache storage it leaves, and the URLs it asked the network for, in order.
\<close>

type_synonym handled = "(js_error + response) \<times> cache_storage \<times> string list"

definition unavailable :: response where
  "unavailable =
     \<lparr>status = 404, statusText = ''Wallpaper not available offline'', vary = [], body = []\<rparr>"

text \<open>The \<open>try\<close> block of \<open>handleWallpaperRequest\<close>; \<open>Inl\<close> is what it throws.\<close>

definition handleWallpaperRequest_try :: "network \<Rightarrow> cache_storage \<Rightarrow> request \<Rightarrow> handled" where
  "handleWallpaperRequest_try net st req =
     (case caches_match st (url req) of
        Some cachedResponse \<Rightarrow> (Inr cachedResponse, st, [])
      | None \<Rightarrow>
          (case net (url req) of
             Rejected \<Rightarrow> (Inl NetworkFailure, st, [url req])
           | Fulfilled networkResponse \<Rightarrow>
               if ok networkResponse
               then (Inr networkResponse,
                     put_not_awaited WALLPAPER_CACHE_NAME (url req) networkResponse
                       (caches_open WALLPAPER_CACHE_NAME st),
                     [url req])
               else (Inl (Error ''Network response not ok''), st, [url req])))"

text \<open>The \<open>catch\<close> block answers every error with the constructed 404 response.\<close>

definition handleWallpaperRequest :: "network \<Rightarrow> cache_storage \<Rightarrow> request \<Rightarrow> handled" where
  "handleWallpaperRequest net st req =
     (case handleWallpaperRequest_try net st req of
        (Inr r, st', asked) \<Rightarrow> (Inr r, st', asked)
      | (Inl err, st', asked) \<Rightarrow> (Inr unavailable, st', asked))"

text \<open>The \<open>try\<close> block of \<open>handleStaticAssetRequest\<close>.\<close>

definition handleStaticAssetRequest_try :: "network \<Rightarrow> cache_storage \<Rightarrow> request \<Rightarrow> handled" where
  "handleStaticAssetRequest_try net st req =
     (case caches_match st (url req) of
        Some cachedResponse \<Rightarrow> (Inr cachedResponse, st, [])
      | None \<Rightarrow>
          (case net (url req) of
             Rejected \<Rightarrow> (Inl NetworkFailure, st, [url req])
           | Fulfilled networkResponse \<Rightarrow>
               (Inr networkResponse,
                if ok networkResponse
                then put_not_awaited STATIC_CACHE_NAME (url req) networkResponse
                       (caches_open STATIC_CACHE_NAME st)
                else st,
                [url req])))"

text \<open>
  Its \<open>catch\<close> block: a navigation is answered with the cached \<open>/index.html\<close> when
  there is one; every other error is thrown again.
\<close>

definition handleStaticAssetRequest :: "network \<Rightarrow> cache_storage \<Rightarrow> request \<Rightarrow> handled" where
  "handleStaticAssetRequest net st req =
     (case handleStaticAssetRequest_try net st req of
        (Inr r, st', asked) \<Rightarrow> (Inr r, st', asked)
      | (Inl err, st', asked) \<Rightarrow>
          if mode req = ''navigate''
          then (case caches_match st' ''/index.html'' of
                  Some cachedIndex \<Rightarrow> (Inr cachedIndex, st', asked)
                | None \<Rightarrow> (Inl err, st', asked))
          else (Inl err, st', asked))"

definition handleNetworkFirstRequest :: "network \<Rightarrow> cache_storage \<Rightarrow> request \<Rightarrow> handled" where
  "handleNetworkFirstRequest net st req =
     (case net (url req) of
        Fulfilled networkResponse \<Rightarrow>
          (Inr networkResponse,
           if ok networkResponse
           then put_not_awaited CACHE_NAME (url req) networkResponse (caches_open CACHE_NAME st)
           else st,
           [url req])
      | Rejected \<Rightarrow>
          (case caches_match st (url req) of
             Some cachedResponse \<Rightarrow> (Inr cachedResponse, st, [url req])
           | None \<Rightarrow> (Inl NetworkFailure, st, [url req])))"

text \<open>
  The \<open>fetch\<close> listener. \<open>None\<close>: the listener returns without \<open>respondWith\<close> (the
  request is not a GET) and the browser handles the request itself.
\<close>

definition is_wallpaper_path :: "string \<Rightarrow> bool" where
  "is_wallpaper_path p = prefix ''/wallpapers/'' p"

definition is_static_path :: "string \<Rightarrow> bool" where
  "is_static_path p =
     (suffix ''.js'' p \<or> suffix ''.css'' p \<or> p = ''/'' \<or> suffix ''.html'' p)"

definition fetch_listener :: "network \<Rightarrow> cache_storage \<Rightarrow> request \<Rightarrow> handled option" where
  "fetch_listener net st req =
     (if http_method req \<noteq> ''GET'' then None
      else if is_wallpaper_path (pathname req) then Some (handleWallpaperRequest net st req)
      else if is_static_path (pathname req) then Some (handleStaticAssetRequest net st req)
      else Some (handleNetworkFirstRequest net st req))"

subsection \<open>Activation\<close>

text \<open>
  The \<open>activate\<close> listener asks for the names of all caches and deletes each one that is
  none of the three names of the script. \<open>activate_listener\<close> is the listener with the
  three names as parameters; \<open>activate\<close> is the listener of sw.js as it stands.
\<close>

definition activate_listener ::
  "string \<Rightarrow> string \<Rightarrow> string \<Rightarrow> cache_storage \<Rightarrow> cache_storage" where
  "activate_listener runtime_name static_name wallpaper_name st =
     fold (\<lambda>cacheName s.
             if cacheName \<noteq> runtime_name \<and> cacheName \<noteq> static_name \<and>
                cacheName \<noteq> wallpaper_name
             then caches_delete cacheName s else s)
       (caches_keys st) st"

definition activate :: "cache_storage \<Rightarrow> cache_storage" where
  "activate st = activate_listener CACHE_NAME STATIC_CACHE_NAME WALLPAPER_CACHE_NAME st"

text \<open>
  A deployment is built by scripts/postBuild.js, whose \<open>optimizeServiceWorker\<close> replaces
  every \<open>desktop-clock-v1\<close> in the text of sw.js by \<open>desktop-clock-v\<close> and the build's
  timestamp (the digits of \<open>Date.now()\<close>). \<open>replace_all\<close> is the replacement of a
  pattern that is not empty, from left to right.
\<close>

function replace_all :: "string \<Rightarrow> string \<Rightarrow> string \<Rightarrow> string" where
  "replace_all pat new [] = []"
| "replace_all pat new (c # cs) =
     (if pat \<noteq> [] \<and> prefix pat (c # cs)
      then new @ replace_all pat new (drop (length pat) (c # cs))
      else c # replace_all pat new cs)"
  by pat_completeness auto
termination
  by (relation "measure (\<lambda>(pat, new, subject). length subject)") auto

definition optimizeServiceWorker :: "string \<Rightarrow> string \<Rightarrow> string" where
  "optimizeServiceWorker timestamp swContent =
     replace_all ''desktop-clock-v1'' (''desktop-clock-v'' @ timestamp) swContent"

text \<open>
  The \<open>activate\<close> listener of the deployment built at a timestamp: its three names are
  what the replacement makes of the three names of sw.js.
\<close>

definition activate_built :: "string \<Rightarrow> cache_storage \<Rightarrow> cache_storage" where
  "activate_built timestamp st =
     activate_listener (optimizeServiceWorker timestamp CACHE_NAME)
       (optimizeServiceWorker timestamp STATIC_CACHE_NAME)
       (optimizeServiceWorker timestamp WALLPAPER_CACHE_NAME) st"

text \<open>A cache name carries a version tag when it ends in it.\<close>

definition carries_tag :: "string \<Rightarrow> string \<Rightarrow> bool" where
  "carries_tag v name = suffix v name"

subsection \<open>The control messages\<close>

record WallpaperImage =
  src :: string
  category :: string
  filename :: string

text \<open>
  \<open>cacheWallpapers\<close>: the loop over the images, then the function. A fetch that rejects
  or answers with a status that is not ok leaves the cache as it is, and so does a
  \<open>cache.put\<close> that rejects: the inner \<open>catch\<close> goes on with the next image.
\<close>

fun cacheWallpapers_loop :: "network \<Rightarrow> WallpaperImage list \<Rightarrow> cache_storage \<Rightarrow> cache_storage" where
  "cacheWallpapers_loop net [] st = st"
| "cacheWallpapers_loop net (img # images) st =
     cacheWallpapers_loop net images
       (case net (src img) of
          Rejected \<Rightarrow> st
        | Fulfilled response \<Rightarrow>
            if ok response
            then (case cache_put WALLPAPER_CACHE_NAME (src img) response st of
                    Inr st' \<Rightarrow> st'
                  | Inl err \<Rightarrow> st)
            else st)"

definition cacheWallpapers :: "network \<Rightarrow> WallpaperImage list \<Rightarrow> cache_storage \<Rightarrow> cache_storage" where
  "cacheWallpapers net images st =
     cacheWallpapers_loop net images (caches_open WALLPAPER_CACHE_NAME st)"

text \<open>The images that a pass of the loop stores, and their URLs.\<close>

definition stores :: "network \<Rightarrow> WallpaperImage \<Rightarrow> bool" where
  "stores net img =
     (case net (src img) of Rejected \<Rightarrow> False | Fulfilled r \<Rightarrow> ok r \<and> \<not> put_refused r)"

definition stored_by :: "network \<Rightarrow> WallpaperImage list \<Rightarrow> string set" where
  "stored_by net images = set (map src (filter (stores net) images))"

definition clearAllCaches :: "cache_storage \<Rightarrow> cache_storage" where
  "clearAllCaches st = fold caches_delete (caches_keys st) st"

text \<open>The status object: for each cache name the number of its keys.\<close>

type_synonym cache_status = "(string \<times> nat) list"

definition getCacheStatus :: "cache_storage \<Rightarrow> cache_status" where
  "getCacheStatus st = map (\<lambda>cacheName. (cacheName, length (cache_entries st cacheName))) (caches_keys st)"

datatype message =
  SKIP_WAITING
| CACHE_WALLPAPERS "WallpaperImage list"
| CLEAR_CACHE
| GET_CACHE_STATUS
| Unknown string

text \<open>
  The \<open>message\<close> listener: the storage it leaves and what it posts on the reply port,
  if anything.
\<close>

definition message_listener ::
  "network \<Rightarrow> message \<Rightarrow> cache_storage \<Rightarrow> cache_storage \<times> cache_status option" where
  "message_listener net msg st =
     (case msg of
        SKIP_WAITING \<Rightarrow> (st, None)
      | CACHE_WALLPAPERS images \<Rightarrow> (cacheWallpapers net images st, None)
      | CLEAR_CACHE \<Rightarrow> (clearAllCaches st, None)
      | GET_CACHE_STATUS \<Rightarrow> (st, Some (getCacheStatus st))
      | Unknown t \<Rightarrow> (st, None))"

definition wallpaper_count :: "cache_storage \<Rightarrow> nat" where
  "wallpaper_count st = length (cache_entries st WALLPAPER_CACHE_NAME)"

section \<open>The page's side of the control channel: src/utils/constants.ts\<close>

text \<open>
  \<open>sendMessageToServiceWorker\<close> makes a promise that the reply's message event resolves
  and that a timer of 5000 ms rejects; without a controlling service worker it rejects at
  once. A promise settles once, with whichever comes first. The reply is given by the time
  of its message event in milliseconds after the message was posted, or never comes;
  \<open>reply_wins_tie\<close> says which callback runs first when both fall on the same millisecond.
\<close>

datatype 'a reply = NoReply | ReplyAt nat 'a

definition sendMessageToServiceWorker :: "bool \<Rightarrow> bool \<Rightarrow> 'a reply \<Rightarrow> js_error + 'a" where
  "sendMessageToServiceWorker controller reply_wins_tie rep =
     (if controller
      then (case rep of
              NoReply \<Rightarrow> Inl (Error ''Service Worker message timeout'')
            | ReplyAt t data \<Rightarrow>
                if t < 5000 \<or> (t = 5000 \<and> reply_wins_tie) then Inr data
                else Inl (Error ''Service Worker message timeout''))
      else Inl (Error ''Service Worker not available''))"

text \<open>\<open>getCacheStatus\<close> of constants.ts: the awaited reply, or \<open>{}\<close> from the \<open>catch\<close>.\<close>

definition getCacheStatus_page :: "bool \<Rightarrow> bool \<Rightarrow> cache_status reply \<Rightarrow> js_error + cache_status" where
  "getCacheStatus_page controller reply_wins_tie rep =
     (case sendMessageToServiceWorker controller reply_wins_tie rep of
        Inr answer \<Rightarrow> Inr answer
      | Inl err \<Rightarrow> Inr [])"

section \<open>The rotation hook: hooks/useWallpaperRotation\<close>

text \<open>The five state variables of the hook, with their initial values.\<close>

record rotation_state =
  availableImages :: "WallpaperImage list"
  currentImage :: "WallpaperImage option"
  currentIndex :: nat
  isLoading :: bool
  error :: "string option"

definition initial_state :: rotation_state where
  "initial_state =
     \<lparr>availableImages = [], currentImage = None, currentIndex = 0, isLoading = True,
      error = None\<rparr>"

definition hasImages :: "rotation_state \<Rightarrow> bool" where
  "hasImages s = (length (availableImages s) > 0)"

text \<open>
  Numbers are doubles. A finite double that is not negative is \<open>N / 2 ^ 1074\<close> for a
  natural number \<open>N\<close> of at most 53 significant bits. \<open>bit_length\<close> counts the bits of a
  number; \<open>round_to_bits p\<close> keeps the \<open>p\<close> leading bits of a number and rounds to the
  nearest, a tie to the even one.
\<close>

fun bit_length :: "nat \<Rightarrow> nat" where
  "bit_length n = (if n = 0 then 0 else Suc (bit_length (n div 2)))"

declare bit_length.simps [simp del]

definition round_to_bits :: "nat \<Rightarrow> nat \<Rightarrow> nat" where
  "round_to_bits p N =
     (if bit_length N \<le> p then N
      else (let s = bit_length N - p; q = N div 2 ^ s; rest = N mod 2 ^ s
            in (if 2 ^ s < 2 * rest \<or> (2 * rest = 2 ^ s \<and> odd q) then q + 1 else q) * 2 ^ s))"

definition double_grid :: nat where
  "double_grid = 2 ^ 1074"

definition is_double :: "real \<Rightarrow> bool" where
  "is_double r =
     (real (nat \<lfloor>r * real double_grid\<rfloor>) = r * real double_grid \<and>
      round_to_bits 53 (nat \<lfloor>r * real double_grid\<rfloor>) = nat \<lfloor>r * real double_grid\<rfloor>)"

text \<open>
  \<open>Math.random()\<close> gives a double \<open>r\<close> with \<open>0 \<le> r < 1\<close>; each draw is a parameter of
  the model. \<open>Math.random() * n\<close> is the product of the draw and the length \<open>n\<close> of an
  array (a whole number below \<open>2 ^ 32\<close>, a double itself), rounded to a double, and
  \<open>Math.floor\<close> of it the index. In \<open>double_times\<close> the draw and the product are
  taken in units of \<open>1 / 2 ^ 1074\<close>. Reading an array outside its range gives
  \<open>undefined\<close>, here \<open>None\<close>.
\<close>

definition double_times :: "real \<Rightarrow> nat \<Rightarrow> real" where
  "double_times r n =
     real (round_to_bits 53 (nat \<lfloor>r * real double_grid\<rfloor> * n)) / real double_grid"

definition random_index :: "real \<Rightarrow> nat \<Rightarrow> nat" where
  "random_index r n = nat \<lfloor>double_times r n\<rfloor>"

definition element :: "'a list \<Rightarrow> nat \<Rightarrow> 'a option" where
  "element xs i = (if i < length xs then Some (xs ! i) else None)"

text \<open>\<open>Array.prototype.join\<close> on strings.\<close>

fun join :: "string \<Rightarrow> string list \<Rightarrow> string" where
  "join sep [] = []"
| "join sep [x] = x"
| "join sep (x # y # ys) = x @ sep @ join sep (y # ys)"

text \<open>
  \<open>getImagesWithFallback\<close> and \<open>preloadImages\<close> come from utils/imageLoader. What the
  resolver settles with is a parameter: the object \<open>{images, errors}\<close>, or an exception
  (with its message when it is an \<open>Error\<close>).
\<close>

datatype resolution = Returned "WallpaperImage list" "string list" | Threw "string option"

text \<open>
  \<open>loadImages\<close> runs in up to three turns, split at its two \<open>await\<close>s.
  First turn: up to the call of the resolver; with no category it returns here.
\<close>

definition loadImages_begin :: "string list \<Rightarrow> rotation_state \<Rightarrow> rotation_state" where
  "loadImages_begin categories s =
     (if length categories = 0
      then s\<lparr>availableImages := [], currentImage := None, currentIndex := 0,
             isLoading := False, error := None\<rparr>
      else s\<lparr>isLoading := True, error := None\<rparr>)"

text \<open>
  Second turn: from the resolver's answer to the \<open>await\<close> of the preload (images found),
  or through \<open>catch\<close> and \<open>finally\<close> to the end (none found, or the resolver threw).
  \<open>r\<close> is the draw of the first image, \<open>ps\<close> the draws of the images to preload. The
  second component is the list handed to \<open>preloadImages\<close>, when the function awaits it.
\<close>

definition loadImages_resolved ::
  "resolution \<Rightarrow> real \<Rightarrow> real list \<Rightarrow> rotation_state \<Rightarrow>
   rotation_state \<times> WallpaperImage option list option" where
  "loadImages_resolved res r ps s =
     (case res of
        Returned images errors \<Rightarrow>
          if length images = 0
          then (let errorMessage =
                      (if length errors > 0
                       then ''No valid images found: '' @ join '', '' errors
                       else ''No images found for selected categories'')
                in (s\<lparr>error := Some errorMessage, availableImages := [],
                      currentImage := None, currentIndex := 0, isLoading := False\<rparr>, None))
          else (let randomIndex = random_index r (length images);
                    randomImagesToPreload =
                      map (\<lambda>p. element images (random_index p (length images)))
                        (take (min 3 (length images)) ps)
                in (s\<lparr>availableImages := images, currentImage := element images randomIndex,
                      currentIndex := randomIndex\<rparr>, Some randomImagesToPreload))
      | Threw msg \<Rightarrow>
          (s\<lparr>error := Some (''Failed to load wallpaper images: '' @
                   (case msg of Some m \<Rightarrow> m | None \<Rightarrow> ''Unknown error'')),
             availableImages := [], currentImage := None, currentIndex := 0,
             isLoading := False\<rparr>, None))"

text \<open>Third turn: the preload has settled either way; \<open>finally\<close> ends the loading.\<close>

definition loadImages_finally :: "rotation_state \<Rightarrow> rotation_state" where
  "loadImages_finally s = s\<lparr>isLoading := False\<rparr>"

text \<open>The whole of \<open>loadImages\<close>, from the change of the categories to its last turn.\<close>

definition loadImages ::
  "string list \<Rightarrow> resolution \<Rightarrow> real \<Rightarrow> real list \<Rightarrow> rotation_state \<Rightarrow> rotation_state" where
  "loadImages categories res r ps s =
     (if length categories = 0 then loadImages_begin categories s
      else (case loadImages_resolved res r ps (loadImages_begin categories s) of
              (s', None) \<Rightarrow> s'
            | (s', Some preload) \<Rightarrow> loadImages_finally s'))"

text \<open>
  \<open>nextImage\<close>: the new state and the list handed to \<open>preloadImages\<close>, which is not
  awaited. \<open>r\<close> is the draw of the image, \<open>p1\<close> and \<open>p2\<close> the two draws of the loop.
\<close>

definition nextImage ::
  "real \<Rightarrow> real \<Rightarrow> real \<Rightarrow> rotation_state \<Rightarrow> rotation_state \<times> WallpaperImage option list option" where
  "nextImage r p1 p2 s =
     (if length (availableImages s) = 0 then (s, None)
      else (let randomIndex = random_index r (length (availableImages s));
                randomImage = element (availableImages s) randomIndex;
                imagesToPreload =
                  concat (map (\<lambda>p. let preloadIndex = random_index p (length (availableImages s))
                                    in if preloadIndex \<noteq> randomIndex
                                       then [element (availableImages s) preloadIndex] else [])
                            [p1, p2])
            in (s\<lparr>currentImage := randomImage, currentIndex := randomIndex\<rparr>,
                Some imagesToPreload)))"

text \<open>
  The interval is set only while the rotation is enabled and more than one image is
  available; a tick of the interval calls \<open>nextImage\<close>.
\<close>

definition interval_tick ::
  "bool \<Rightarrow> real \<Rightarrow> real \<Rightarrow> real \<Rightarrow> rotation_state \<Rightarrow> rotation_state \<times> WallpaperImage option list option" where
  "interval_tick enabled r p1 p2 s =
     (if \<not> enabled \<or> length (availableImages s) \<le> 1 then (s, None)
      else nextImage r p1 p2 s)"

text \<open>
  What happens to the hook, one turn of the event loop each: the categories change, the
  resolver settles, the awaited preload settles, the interval ticks.
\<close>

datatype event =
  CategoriesChanged "string list"
| ResolverSettled resolution real "real list"
| PreloadSettled
| IntervalTick bool real real real

fun step :: "event \<Rightarrow> rotation_state \<Rightarrow> rotation_state" where
  "step (CategoriesChanged categories) s = loadImages_begin categories s"
| "step (ResolverSettled res r ps) s = fst (loadImages_resolved res r ps s)"
| "step PreloadSettled s = loadImages_finally s"
| "step (IntervalTick enabled r p1 p2) s = fst (interval_tick enabled r p1 p2 s)"

definition run :: "event list \<Rightarrow> rotation_state \<Rightarrow> rotation_state" where
  "run es s = fold step es s"

text \<open>Every draw of an event is a value of \<open>Math.random()\<close>.\<close>

definition is_draw :: "real \<Rightarrow> bool" where
  "is_draw r = (0 \<le> r \<and> r < 1 \<and> is_double r)"

fun draws_ok :: "event \<Rightarrow> bool" where
  "draws_ok (ResolverSettled res r ps) = (is_draw r \<and> list_all is_draw ps)"
| "draws_ok (IntervalTick enabled r p1 p2) = (is_draw r \<and> is_draw p1 \<and> is_draw p2)"
| "draws_ok e = True"

text \<open>
  The invariant of the rotation state: when images are available, the current image is
  one of them.
\<close>

definition current_is_available :: "rotation_state \<Rightarrow> bool" where
  "current_is_available s =
     (availableImages s \<noteq> [] \<longrightarrow>
      (case currentImage s of Some i \<Rightarrow> i \<in> set (availableImages s) | None \<Rightarrow> False))"

section \<open>The display: components/Wallpaper.tsx\<close>

text \<open>
  The branches of the component, in its order. A string is truthy when it is not empty.
\<close>

datatype view =
  Hidden
| LoadingView
| ErrorView string
| EmptyView string
| ImageView WallpaperImage

definition empty_text :: "string list \<Rightarrow> string" where
  "empty_text categories =
     (if length categories = 0 then ''No wallpaper categories selected''
      else ''No images found in selected categories'')"

definition truthy :: "string option \<Rightarrow> bool" where
  "truthy x = (case x of Some m \<Rightarrow> m \<noteq> [] | None \<Rightarrow> False)"

definition Wallpaper :: "string list \<Rightarrow> bool \<Rightarrow> rotation_state \<Rightarrow> view" where
  "Wallpaper categories enabled s =
     (if \<not> enabled then Hidden
      else if isLoading s then LoadingView
      else if truthy (error s)
      then ErrorView (case error s of Some m \<Rightarrow> m | None \<Rightarrow> [])
      else (case currentImage s of
              Some i \<Rightarrow> if hasImages s then ImageView i else EmptyView (empty_text categories)
            | None \<Rightarrow> EmptyView (empty_text categories)))"

section \<open>Example data\<close>

text \<open>Requests, responses, networks and stores at which the theorems below are evaluated.\<close>

definition a_jpg :: request where
  "a_jpg = \<lparr>http_method = ''GET'', pathname = ''/wallpapers/nature/a.jpg'', search = [], mode = ''no-cors''\<rparr>"

definition jpeg :: response where
  "jpeg = \<lparr>status = 200, statusText = ''OK'', vary = [], body = ''JFIF''\<rparr>"

definition partial_jpeg :: response where
  "partial_jpeg =
     \<lparr>status = 206, statusText = ''Partial Content'', vary = [], body = ''JF''\<rparr>"

definition server_error :: response where
  "server_error =
     \<lparr>status = 500, statusText = ''Internal Server Error'', vary = [], body = ''failed''\<rparr>"

definition offline :: network where
  "offline u = Rejected"

definition serving :: "response \<Rightarrow> network" where
  "serving r u = Fulfilled r"

definition index_request :: request where
  "index_request = \<lparr>http_method = ''GET'', pathname = ''/index.html'', search = [], mode = ''navigate''\<rparr>"

definition root_request :: request where
  "root_request = \<lparr>http_method = ''GET'', pathname = ''/'', search = [], mode = ''navigate''\<rparr>"

definition old_page :: response where
  "old_page = \<lparr>status = 200, statusText = ''OK'', vary = [], body = ''old''\<rparr>"

definition new_page :: response where
  "new_page = \<lparr>status = 200, statusText = ''OK'', vary = [], body = ''new''\<rparr>"

definition shell_store :: cache_storage where
  "shell_store = [(''desktop-clock-static-v1'', [(''/index.html'', old_page)])]"

text \<open>The storage that the deployment built at 1700000000000 leaves behind.\<close>

definition first_build_store :: cache_storage where
  "first_build_store =
     [(''desktop-clock-v1700000000000'', [(''/manifest.json'', old_page)]),
      (''desktop-clock-static-v1'', [(''/index.html'', old_page)]),
      (''desktop-clock-wallpapers-v1'', [(''/wallpapers/nature/a.jpg'', jpeg)])]"

definition a_image :: WallpaperImage where
  "a_image = \<lparr>src = ''/wallpapers/nature/a.jpg'', category = ''nature'', filename = ''a.jpg''\<rparr>"

definition b_image :: WallpaperImage where
  "b_image = \<lparr>src = ''/wallpapers/nature/b.jpg'', category = ''nature'', filename = ''b.jpg''\<rparr>"

definition c_image :: WallpaperImage where
  "c_image = \<lparr>src = ''/wallpapers/nature/c.jpg'', category = ''nature'', filename = ''c.jpg''\<rparr>"

definition only_a :: network where
  "only_a u = (if u = ''/wallpapers/nature/a.jpg'' then Fulfilled jpeg else Rejected)"

definition two_images :: rotation_state where
  "two_images =
     \<lparr>availableImages = [a_image, b_image], currentImage = Some a_image, currentIndex = 0,
      isLoading = False, error = None\<rparr>"

definition three_images :: rotation_state where
  "three_images =
     \<lparr>availableImages = [a_image, b_image, c_image], currentImage = Some a_image,
      currentIndex = 0, isLoading = False, error = None\<rparr>"

definition nature_events :: "event list" where
  "nature_events =
     [CategoriesChanged [''nature''],
      ResolverSettled (Returned [a_image, b_image] []) (1 / 2) [0, 3 / 4],
      PreloadSettled,
      IntervalTick True 0 (1 / 2) 0]"

section \<open>Properties of the cache storage\<close>

lemma map_of_update_same: "map_of (AList.update k v c) k = Some v"
  by (simp add: update_conv')

lemma map_of_map_entry_same:
  "map_of (AList.map_entry n f st) n = map_option f (map_of st n)"
  by (induction st) auto

lemma caches_open_has: "name \<in> fst ` set (caches_open name st)"
  by (simp add: caches_open_def)

lemma cache_entries_write:
  assumes "name \<in> fst ` set st"
  shows "cache_entries (write_entry name key r st) name = AList.update key r (cache_entries st name)"
proof -
  from assms obtain c where "map_of st name = Some c"
    by (metis domD dom_map_of_conv_image_fst)
  then show ?thesis
    by (simp add: cache_entries_def write_entry_def map_of_map_entry_same)
qed

lemma cache_entries_open: "cache_entries (caches_open name st) other = cache_entries st other"
  by (cases "map_of st other")
     (force simp add: cache_entries_def caches_open_def map_of_eq_None_iff
        dest: map_of_SomeD split: option.split if_splits)+

lemma stored_after_write:
  "map_of (cache_entries (write_entry name key r (caches_open name st)) name) key = Some r"
  by (simp add: cache_entries_write caches_open_has map_of_update_same)

lemma put_not_awaited_cases:
  "put_not_awaited name key r st = (if put_refused r then st else write_entry name key r st)"
  by (simp add: put_not_awaited_def cache_put_def)

section \<open>Properties of the fetch handlers\<close>

text \<open>
  Claim C6, as stated, fails: the network answers a request for a wallpaper that is not
  cached with a 206 response, which is ok. The handler returns the response, but
  \<open>cache.put\<close> refuses it: the wallpaper cache is opened and stays empty.
\<close>

theorem wallpaper_partial_response_not_stored:
  "ok partial_jpeg
   \<and> fetch_listener (serving partial_jpeg) [] a_jpg =
       Some (Inr partial_jpeg, [(''desktop-clock-wallpapers-v1'', [])],
             [''/wallpapers/nature/a.jpg''])
   \<and> cache_entries [(''desktop-clock-wallpapers-v1'', [])] WALLPAPER_CACHE_NAME = []"
  by (simp add: a_jpg_def partial_jpeg_def serving_def is_wallpaper_path_def fetch_listener_def
      handleWallpaperRequest_def handleWallpaperRequest_try_def url_def ok_def caches_open_def
      put_not_awaited_cases put_refused_def WALLPAPER_CACHE_NAME_def cache_entries_def)

text \<open>
  Claim C6, amended. A GET request whose path starts with \<open>/wallpapers/\<close> is always
  answered with a response, never with a rejection:
  \<^item> with the cached response when \<open>caches.match\<close> finds one, without asking the network
    and without touching the storage;
  \<^item> otherwise, when the network answers with an ok response, with that response; it is
    then the entry of the request's URL in the wallpaper cache, unless \<open>cache.put\<close>
    refuses it (status 206, or \<open>Vary: *\<close>), in which case no cache gets an entry;
  \<^item> otherwise (the network is unreachable or its response is not ok) with the
    constructed response of status 404, which is not ok, the storage left as it was.
\<close>

theorem wallpaper_request_cache_first:
  assumes "http_method req = ''GET''" and "is_wallpaper_path (pathname req)"
  shows "(\<forall>c. caches_match st (url req) = Some c \<longrightarrow>
            fetch_listener net st req = Some (Inr c, st, []))
       \<and> (\<forall>r. caches_match st (url req) = None \<and> net (url req) = Fulfilled r \<and> ok r \<longrightarrow>
            (\<exists>st'. fetch_listener net st req = Some (Inr r, st', [url req])
                 \<and> (\<not> put_refused r \<longrightarrow>
                      map_of (cache_entries st' WALLPAPER_CACHE_NAME) (url req) = Some r)
                 \<and> (put_refused r \<longrightarrow>
                      (\<forall>name. cache_entries st' name = cache_entries st name))))
       \<and> (caches_match st (url req) = None \<and>
            (net (url req) = Rejected \<or> (\<exists>r. net (url req) = Fulfilled r \<and> \<not> ok r)) \<longrightarrow>
            fetch_listener net st req =
              Some (Inr \<lparr>status = 404, statusText = ''Wallpaper not available offline'',
                         vary = [], body = []\<rparr>, st, [url req]))
       \<and> \<not> ok \<lparr>status = 404, statusText = ''Wallpaper not available offline'',
                 vary = [], body = []\<rparr>
       \<and> (\<exists>r st' asked. fetch_listener net st req = Some (Inr r, st', asked))"
proof -
  have L: "fetch_listener net st req = Some (handleWallpaperRequest net st req)"
    using assms by (simp add: fetch_listener_def)
  have A: "\<forall>c. caches_match st (url req) = Some c \<longrightarrow>
            handleWallpaperRequest net st req = (Inr c, st, [])"
    by (simp add: handleWallpaperRequest_def handleWallpaperRequest_try_def)
  have B: "\<forall>r. caches_match st (url req) = None \<and> net (url req) = Fulfilled r \<and> ok r \<longrightarrow>
            (\<exists>st'. handleWallpaperRequest net st req = (Inr r, st', [url req])
                 \<and> (\<not> put_refused r \<longrightarrow>
                      map_of (cache_entries st' WALLPAPER_CACHE_NAME) (url req) = Some r)
                 \<and> (put_refused r \<longrightarrow>
                      (\<forall>name. cache_entries st' name = cache_entries st name)))"
    by (simp add: handleWallpaperRequest_def handleWallpaperRequest_try_def stored_after_write
        put_not_awaited_cases cache_entries_open)
  have C: "caches_match st (url req) = None \<and>
            (net (url req) = Rejected \<or> (\<exists>r. net (url req) = Fulfilled r \<and> \<not> ok r)) \<longrightarrow>
            handleWallpaperRequest net st req =
              (Inr \<lparr>status = 404, statusText = ''Wallpaper not available offline'',
                    vary = [], body = []\<rparr>, st, [url req])"
    by (auto simp add: handleWallpaperRequest_def handleWallpaperRequest_try_def unavailable_def)
  have D: "\<exists>r st' asked. handleWallpaperRequest net st req = (Inr r, st', asked)"
    by (simp add: handleWallpaperRequest_def handleWallpaperRequest_try_def
        split: option.split fetch_result.split)
  have E: "\<not> ok \<lparr>status = 404, statusText = ''Wallpaper not available offline'',
                 vary = [], body = []\<rparr>"
    by (simp add: ok_def)
  show ?thesis using A B C D E by (simp only: L option.inject simp_thms)
qed

text \<open>
  The theorem at \<open>/wallpapers/nature/a.jpg\<close>: cached and offline, not cached and the
  network serving it, not cached and the network serving a part of it, not cached and
  offline.
\<close>

theorem wallpaper_request_cache_first_witness:
  "http_method a_jpg = ''GET'' \<and> is_wallpaper_path (pathname a_jpg)
   \<and> fetch_listener offline [(''desktop-clock-wallpapers-v1'', [(''/wallpapers/nature/a.jpg'', jpeg)])] a_jpg
       = Some (Inr jpeg, [(''desktop-clock-wallpapers-v1'', [(''/wallpapers/nature/a.jpg'', jpeg)])], [])
   \<and> ok jpeg \<and> \<not> put_refused jpeg
   \<and> fetch_listener (serving jpeg) [] a_jpg
       = Some (Inr jpeg, [(''desktop-clock-wallpapers-v1'', [(''/wallpapers/nature/a.jpg'', jpeg)])],
               [''/wallpapers/nature/a.jpg''])
   \<and> ok partial_jpeg \<and> put_refused partial_jpeg
   \<and> fetch_listener (serving partial_jpeg) [] a_jpg
       = Some (Inr partial_jpeg, [(''desktop-clock-wallpapers-v1'', [])],
               [''/wallpapers/nature/a.jpg''])
   \<and> fetch_listener offline [] a_jpg =
       Some (Inr \<lparr>status = 404, statusText = ''Wallpaper not available offline'',
                  vary = [], body = []\<rparr>, [], [''/wallpapers/nature/a.jpg''])"
  using wallpaper_request_cache_first [of a_jpg "[]" offline]
  by (simp add: a_jpg_def jpeg_def partial_jpeg_def offline_def serving_def is_wallpaper_path_def
      fetch_listener_def handleWallpaperRequest_def handleWallpaperRequest_try_def url_def ok_def
      caches_open_def put_not_awaited_cases put_refused_def write_entry_def
      WALLPAPER_CACHE_NAME_def)

text \<open>
  Claim C10. A GET request for a wallpaper that is not cached, and to which the network
  answers with a response that is not ok: the answer is the constructed response of
  status 404 and empty body, which is not ok; nothing is stored; and the outcome is the
  one of an unreachable network.
\<close>

theorem wallpaper_not_ok_is_unavailable:
  assumes "http_method req = ''GET''" and "is_wallpaper_path (pathname req)"
    and "caches_match st (url req) = None"
    and "net (url req) = Fulfilled r" and "\<not> ok r"
  shows "fetch_listener net st req =
           Some (Inr \<lparr>status = 404, statusText = ''Wallpaper not available offline'',
                      vary = [], body = []\<rparr>, st, [url req])
       \<and> \<not> ok \<lparr>status = 404, statusText = ''Wallpaper not available offline'',
                 vary = [], body = []\<rparr>
       \<and> fetch_listener net st req = fetch_listener (net(url req := Rejected)) st req"
proof -
  have "\<not> ok \<lparr>status = 404, statusText = ''Wallpaper not available offline'',
              vary = [], body = []\<rparr>"
    by (simp add: ok_def)
  then show ?thesis
    using assms
    by (simp add: fetch_listener_def handleWallpaperRequest_def handleWallpaperRequest_try_def
        unavailable_def)
qed

text \<open>The theorem at \<open>/wallpapers/nature/a.jpg\<close>, the server answering 500.\<close>

theorem wallpaper_not_ok_is_unavailable_witness:
  "http_method a_jpg = ''GET'' \<and> is_wallpaper_path (pathname a_jpg)
   \<and> caches_match [] (url a_jpg) = None
   \<and> serving server_error (url a_jpg) = Fulfilled server_error \<and> \<not> ok server_error
   \<and> fetch_listener (serving server_error) [] a_jpg =
       Some (Inr \<lparr>status = 404, statusText = ''Wallpaper not available offline'',
                  vary = [], body = []\<rparr>, [], [url a_jpg])"
  using wallpaper_not_ok_is_unavailable [of a_jpg "[]" "serving server_error" server_error]
  by (simp add: a_jpg_def server_error_def serving_def is_wallpaper_path_def ok_def)

text \<open>
  Claim C1, as stated, fails: with \<open>/index.html\<close> cached, the handler of a static request
  answers from the cache and returns; the network, which holds a newer page, is not
  asked, and the store keeps the old page.
\<close>

theorem static_request_no_background_refresh:
  "fetch_listener (serving new_page) shell_store index_request = Some (Inr old_page, shell_store, [])
   \<and> old_page \<noteq> new_page"
  by (simp add: fetch_listener_def index_request_def shell_store_def is_wallpaper_path_def
      is_static_path_def handleStaticAssetRequest_def handleStaticAssetRequest_try_def url_def
      old_page_def new_page_def suffix_to_prefix)

text \<open>
  Claim C1, amended. For a GET request that the listener hands to the static handler
  (the path ends in \<open>.js\<close>, \<open>.css\<close> or \<open>.html\<close>, or is \<open>/\<close>, and is no wallpaper path):
  \<^item> when \<open>caches.match\<close> finds a response, that response is the answer, the network is
    not asked and the storage is left as it was;
  \<^item> when nothing is cached for the request, the network is unreachable, the request is
    a navigation and \<open>/index.html\<close> is cached, the cached \<open>/index.html\<close> is the answer.
\<close>

theorem static_request_cache_first:
  assumes "http_method req = ''GET''" and "\<not> is_wallpaper_path (pathname req)"
    and "is_static_path (pathname req)"
  shows "(\<forall>c. caches_match st (url req) = Some c \<longrightarrow>
            fetch_listener net st req = Some (Inr c, st, []))
       \<and> (\<forall>i. caches_match st (url req) = None \<and> net (url req) = Rejected \<and>
              mode req = ''navigate'' \<and> caches_match st ''/index.html'' = Some i \<longrightarrow>
            fetch_listener net st req = Some (Inr i, st, [url req]))"
  using assms
  by (simp add: fetch_listener_def handleStaticAssetRequest_def handleStaticAssetRequest_try_def)

text \<open>
  The theorem at \<open>/index.html\<close> (cached) and at \<open>/\<close> (not cached, offline, with
  \<open>/index.html\<close> cached).
\<close>

theorem static_request_cache_first_witness:
  "http_method index_request = ''GET'' \<and> \<not> is_wallpaper_path (pathname index_request)
   \<and> is_static_path (pathname index_request)
   \<and> fetch_listener (serving new_page) shell_store index_request = Some (Inr old_page, shell_store, [])
   \<and> http_method root_request = ''GET'' \<and> \<not> is_wallpaper_path (pathname root_request)
   \<and> is_static_path (pathname root_request)
   \<and> caches_match shell_store (url root_request) = None \<and> offline (url root_request) = Rejected
   \<and> mode root_request = ''navigate''
   \<and> fetch_listener offline shell_store root_request = Some (Inr old_page, shell_store, [''/''])"
  using static_request_cache_first [of index_request shell_store "serving new_page"]
    static_request_cache_first [of root_request shell_store offline]
  by (simp add: index_request_def root_request_def shell_store_def is_wallpaper_path_def
      is_static_path_def url_def offline_def suffix_to_prefix)

section \<open>Properties of the activation\<close>

lemma fold_delete_filter:
  "fold (\<lambda>n s. if P n then caches_delete n s else s) ks st =
   filter (\<lambda>(n, c). \<not> (P n \<and> n \<in> set ks)) st"
proof (induction ks arbitrary: st)
  case Nil
  then show ?case by simp
next
  case (Cons k ks)
  have "filter (\<lambda>(n, c). \<not> (P n \<and> n \<in> set ks)) (filter (\<lambda>(n, c). k \<noteq> n) st) =
        filter (\<lambda>(n, c). \<not> (P n \<and> n \<in> set (k # ks))) st" if "P k"
    using that by (induction st) auto
  moreover have "filter (\<lambda>(n, c). \<not> (P n \<and> n \<in> set ks)) st =
        filter (\<lambda>(n, c). \<not> (P n \<and> n \<in> set (k # ks))) st" if "\<not> P k"
    using that by (induction st) auto
  ultimately show ?case
    by (simp add: Cons.IH caches_delete_def AList.delete_eq)
qed

lemma activate_listener_filter:
  "activate_listener a b c st = filter (\<lambda>(n, e). n = a \<or> n = b \<or> n = c) st"
proof -
  have "filter (\<lambda>(n, e). \<not> ((n \<noteq> a \<and> n \<noteq> b \<and> n \<noteq> c) \<and> n \<in> set (map fst st))) st =
        filter (\<lambda>(n, e). n = a \<or> n = b \<or> n = c) st"
    by (rule filter_cong) force+
  then show ?thesis
    by (simp add: activate_listener_def caches_keys_def fold_delete_filter)
qed

text \<open>
  What the build makes of the three names: only \<open>CACHE_NAME\<close> holds the pattern
  \<open>desktop-clock-v1\<close>; the names of the static and of the wallpaper cache are left as
  they are, at every timestamp.
\<close>

lemma built_names:
  "optimizeServiceWorker timestamp CACHE_NAME = ''desktop-clock-v'' @ timestamp"
  "optimizeServiceWorker timestamp STATIC_CACHE_NAME = ''desktop-clock-static-v1''"
  "optimizeServiceWorker timestamp WALLPAPER_CACHE_NAME = ''desktop-clock-wallpapers-v1''"
  by (simp_all add: optimizeServiceWorker_def CACHE_NAME_def STATIC_CACHE_NAME_def
      WALLPAPER_CACHE_NAME_def)

lemma activate_built_filter:
  "activate_built timestamp st =
   filter (\<lambda>(n, e). n = ''desktop-clock-v'' @ timestamp \<or> n = ''desktop-clock-static-v1'' \<or>
                    n = ''desktop-clock-wallpapers-v1'') st"
  by (simp add: activate_built_def built_names activate_listener_filter)

text \<open>
  Claim C7 against the code. The deployment built at 1700000600000 is activated on the
  storage that the deployment built at 1700000000000 left. The build has put the new
  timestamp into \<open>CACHE_NAME\<close> only, so the activation deletes the old runtime cache and
  keeps \<open>desktop-clock-static-v1\<close> and \<open>desktop-clock-wallpapers-v1\<close> with the old
  deployment's entries, although neither name carries the tag of the new deployment.
\<close>

theorem built_activation_keeps_untagged_stores:
  "optimizeServiceWorker ''1700000600000'' CACHE_NAME = ''desktop-clock-v1700000600000''
   \<and> optimizeServiceWorker ''1700000600000'' STATIC_CACHE_NAME = ''desktop-clock-static-v1''
   \<and> optimizeServiceWorker ''1700000600000'' WALLPAPER_CACHE_NAME = ''desktop-clock-wallpapers-v1''
   \<and> \<not> carries_tag ''v1700000600000'' ''desktop-clock-static-v1''
   \<and> \<not> carries_tag ''v1700000600000'' ''desktop-clock-wallpapers-v1''
   \<and> caches_keys first_build_store =
       [''desktop-clock-v1700000000000'', ''desktop-clock-static-v1'',
        ''desktop-clock-wallpapers-v1'']
   \<and> activate_built ''1700000600000'' first_build_store =
       [(''desktop-clock-static-v1'', [(''/index.html'', old_page)]),
        (''desktop-clock-wallpapers-v1'', [(''/wallpapers/nature/a.jpg'', jpeg)])]"
  by (simp add: built_names activate_built_filter first_build_store_def caches_keys_def
      carries_tag_def suffix_to_prefix)

section \<open>Properties of the control messages\<close>

lemma write_entry_names: "fst ` set (write_entry name key r st) = fst ` set st"
  by (simp add: write_entry_def dom_map_entry)

lemma write_entry_keys: "caches_keys (write_entry name key r st) = caches_keys st"
  unfolding write_entry_def caches_keys_def by (induction st) auto

lemma cache_entries_write_other:
  "other \<noteq> name \<Longrightarrow> cache_entries (write_entry name key r st) other = cache_entries st other"
  unfolding write_entry_def cache_entries_def by (induction st) auto

lemma length_update_present:
  "key \<in> fst ` set c \<Longrightarrow> length (AList.update key r c) = length c"
  by (induction c) auto

lemma status_write_present:
  assumes "name \<in> fst ` set st" and "key \<in> fst ` set (cache_entries st name)"
  shows "getCacheStatus (write_entry name key r st) = getCacheStatus st"
proof -
  have "length (cache_entries (write_entry name key r st) n) = length (cache_entries st n)" for n
    using assms
    by (cases "n = name")
       (simp_all add: cache_entries_write cache_entries_write_other length_update_present)
  then show ?thesis
    by (simp add: getCacheStatus_def write_entry_keys)
qed

lemma keys_write:
  "name \<in> fst ` set st \<Longrightarrow>
   fst ` set (cache_entries (write_entry name key r st) name) =
   insert key (fst ` set (cache_entries st name))"
  by (simp add: cache_entries_write dom_update)

text \<open>One turn of the loop: an image that is stored is written, any other is passed over.\<close>

lemma loop_stored:
  assumes "stores net img"
  obtains r where "net (src img) = Fulfilled r"
    and "cacheWallpapers_loop net (img # images) st =
         cacheWallpapers_loop net images (write_entry WALLPAPER_CACHE_NAME (src img) r st)"
  using assms
  by (cases "net (src img)") (simp_all add: stores_def cache_put_def)

lemma loop_passed:
  assumes "\<not> stores net img"
  shows "cacheWallpapers_loop net (img # images) st = cacheWallpapers_loop net images st"
  using assms
  by (cases "net (src img)") (simp_all add: stores_def cache_put_def)

lemma loop_names:
  "WALLPAPER_CACHE_NAME \<in> fst ` set st \<Longrightarrow>
   WALLPAPER_CACHE_NAME \<in> fst ` set (cacheWallpapers_loop net images st)"
proof (induction images arbitrary: st)
  case Nil
  then show ?case by simp
next
  case (Cons img images)
  show ?case
  proof (cases "stores net img")
    case True
    then obtain r where
      "cacheWallpapers_loop net (img # images) st =
       cacheWallpapers_loop net images (write_entry WALLPAPER_CACHE_NAME (src img) r st)"
      by (rule loop_stored)
    then show ?thesis
      using Cons by (simp only: write_entry_names)
  next
    case False
    show ?thesis
      unfolding loop_passed [OF False] using Cons.prems by (rule Cons.IH)
  qed
qed

lemma loop_keys:
  "WALLPAPER_CACHE_NAME \<in> fst ` set st \<Longrightarrow>
   fst ` set (cache_entries (cacheWallpapers_loop net images st) WALLPAPER_CACHE_NAME) =
   fst ` set (cache_entries st WALLPAPER_CACHE_NAME) \<union> stored_by net images"
proof (induction images arbitrary: st)
  case Nil
  then show ?case by (simp add: stored_by_def)
next
  case (Cons img images)
  show ?case
  proof (cases "stores net img")
    case True
    then obtain r where step:
      "cacheWallpapers_loop net (img # images) st =
       cacheWallpapers_loop net images (write_entry WALLPAPER_CACHE_NAME (src img) r st)"
      by (rule loop_stored)
    have "stored_by net (img # images) = insert (src img) (stored_by net images)"
      using True by (simp add: stored_by_def)
    then show ?thesis
      unfolding step using Cons.prems by (simp add: Cons.IH write_entry_names keys_write)
  next
    case False
    have "stored_by net (img # images) = stored_by net images"
      using False by (simp add: stored_by_def)
    then show ?thesis
      unfolding loop_passed [OF False] using Cons.prems by (simp add: Cons.IH)
  qed
qed

lemma loop_status_stable:
  "WALLPAPER_CACHE_NAME \<in> fst ` set st \<Longrightarrow>
   stored_by net images \<subseteq> fst ` set (cache_entries st WALLPAPER_CACHE_NAME) \<Longrightarrow>
   getCacheStatus (cacheWallpapers_loop net images st) = getCacheStatus st"
proof (induction images arbitrary: st)
  case Nil
  then show ?case by simp
next
  case (Cons img images)
  have rest: "stored_by net images \<subseteq> stored_by net (img # images)"
    by (auto simp add: stored_by_def)
  show ?case
  proof (cases "stores net img")
    case False
    have "stored_by net images \<subseteq> fst ` set (cache_entries st WALLPAPER_CACHE_NAME)"
      using Cons.prems rest by blast
    with Cons.prems(1) show ?thesis
      unfolding loop_passed [OF False] by (rule Cons.IH)
  next
    case True
    then obtain r where step:
      "cacheWallpapers_loop net (img # images) st =
       cacheWallpapers_loop net images (write_entry WALLPAPER_CACHE_NAME (src img) r st)"
      by (rule loop_stored)
    have "src img \<in> stored_by net (img # images)"
      using True by (simp add: stored_by_def)
    then have here: "src img \<in> fst ` set (cache_entries st WALLPAPER_CACHE_NAME)"
      using Cons.prems by blast
    let ?st = "write_entry WALLPAPER_CACHE_NAME (src img) r st"
    have "getCacheStatus (cacheWallpapers_loop net images ?st) = getCacheStatus ?st"
    proof (rule Cons.IH)
      show "WALLPAPER_CACHE_NAME \<in> fst ` set ?st"
        using Cons.prems by (simp add: write_entry_names)
      show "stored_by net images \<subseteq> fst ` set (cache_entries ?st WALLPAPER_CACHE_NAME)"
        using Cons.prems rest by (auto simp add: keys_write)
    qed
    then show ?thesis
      unfolding step using here Cons.prems by (simp add: status_write_present)
  qed
qed

lemma cacheWallpapers_twice:
  "getCacheStatus (cacheWallpapers net images (cacheWallpapers net images st)) =
   getCacheStatus (cacheWallpapers net images st)"
proof -
  let ?once = "cacheWallpapers net images st"
  have has: "WALLPAPER_CACHE_NAME \<in> fst ` set ?once"
    by (simp add: cacheWallpapers_def loop_names caches_open_has)
  then have same: "caches_open WALLPAPER_CACHE_NAME ?once = ?once"
    by (simp add: caches_open_def)
  have "stored_by net images \<subseteq> fst ` set (cache_entries ?once WALLPAPER_CACHE_NAME)"
    by (simp add: cacheWallpapers_def loop_keys caches_open_has)
  with has have "getCacheStatus (cacheWallpapers_loop net images ?once) = getCacheStatus ?once"
    by (rule loop_status_stable)
  then show ?thesis
    using same by (simp add: cacheWallpapers_def [of net images ?once])
qed

lemma map_of_tabulated:
  "name \<in> fst ` set st \<Longrightarrow> map_of (map (\<lambda>x. (fst x, g (fst x))) st) name = Some (g name)"
  by (induction st) auto

lemma status_count:
  "name \<in> fst ` set st \<Longrightarrow> map_of (getCacheStatus st) name = Some (length (cache_entries st name))"
  using map_of_tabulated [of name st "\<lambda>n. length (cache_entries st n)"]
  by (simp add: getCacheStatus_def caches_keys_def comp_def)

text \<open>
  Claim C8. Handling \<open>CACHE_WALLPAPERS\<close> with the same images a second time, the network
  answering as it did the first time, leaves the number of entries of the wallpaper
  cache, and the whole status that \<open>GET_CACHE_STATUS\<close> reports, as they were after the
  first time.
\<close>

theorem cache_wallpapers_idempotent:
  "wallpaper_count (fst (message_listener net (CACHE_WALLPAPERS images)
      (fst (message_listener net (CACHE_WALLPAPERS images) st)))) =
   wallpaper_count (fst (message_listener net (CACHE_WALLPAPERS images) st))
   \<and> snd (message_listener net GET_CACHE_STATUS (fst (message_listener net (CACHE_WALLPAPERS images)
      (fst (message_listener net (CACHE_WALLPAPERS images) st))))) =
     snd (message_listener net GET_CACHE_STATUS (fst (message_listener net (CACHE_WALLPAPERS images) st)))"
proof -
  let ?once = "cacheWallpapers net images st"
  let ?twice = "cacheWallpapers net images ?once"
  have eq: "getCacheStatus ?twice = getCacheStatus ?once"
    by (rule cacheWallpapers_twice)
  have "WALLPAPER_CACHE_NAME \<in> fst ` set ?once" "WALLPAPER_CACHE_NAME \<in> fst ` set ?twice"
    by (simp_all add: cacheWallpapers_def loop_names caches_open_has)
  then have "Some (wallpaper_count ?twice) = Some (wallpaper_count ?once)"
    using eq by (simp add: wallpaper_count_def status_count [symmetric])
  then show ?thesis
    using eq by (simp add: message_listener_def)
qed

text \<open>
  The theorem at the images a, b, a with only a on the network, from an empty storage:
  one entry after the first message, one after the second.
\<close>

theorem cache_wallpapers_idempotent_witness:
  "wallpaper_count (fst (message_listener only_a (CACHE_WALLPAPERS [a_image, b_image, a_image]) [])) = 1
   \<and> wallpaper_count (fst (message_listener only_a (CACHE_WALLPAPERS [a_image, b_image, a_image])
        (fst (message_listener only_a (CACHE_WALLPAPERS [a_image, b_image, a_image]) [])))) = 1"
  using cache_wallpapers_idempotent [of only_a "[a_image, b_image, a_image]" "[]"]
  by (simp add: message_listener_def cacheWallpapers_def caches_open_def only_a_def a_image_def
      b_image_def jpeg_def ok_def cache_put_def put_refused_def write_entry_def
      wallpaper_count_def cache_entries_def WALLPAPER_CACHE_NAME_def)

section \<open>Properties of the page's side of the control channel\<close>

text \<open>
  Claim C9. \<open>getCacheStatus\<close> of the page always resolves, never rejects. It resolves to
  the empty status when there is no controlling service worker, when no reply comes, and
  when the reply comes later than the 5000 ms of the timer; a reply that comes before the
  5000 ms is the result.
\<close>

theorem cache_status_timeout_degrades:
  "(\<exists>answer. getCacheStatus_page controller reply_wins_tie rep = Inr answer)
   \<and> (\<not> controller \<or> rep = NoReply \<or> (\<exists>t answer. rep = ReplyAt t answer \<and> 5000 < t) \<longrightarrow>
        getCacheStatus_page controller reply_wins_tie rep = Inr [])
   \<and> (\<forall>t answer. controller \<and> rep = ReplyAt t answer \<and> t < 5000 \<longrightarrow>
        getCacheStatus_page controller reply_wins_tie rep = Inr answer)"
  by (auto simp add: getCacheStatus_page_def sendMessageToServiceWorker_def split: reply.split)

text \<open>The theorem with no reply, a late reply, no controller, and a reply in time.\<close>

theorem cache_status_timeout_degrades_witness:
  "getCacheStatus_page True True NoReply = Inr []
   \<and> getCacheStatus_page True True (ReplyAt 5001 [(''desktop-clock-v1'', 3)]) = Inr []
   \<and> getCacheStatus_page False True (ReplyAt 10 [(''desktop-clock-v1'', 3)]) = Inr []
   \<and> getCacheStatus_page True False (ReplyAt 4999 [(''desktop-clock-v1'', 3)]) =
       Inr [(''desktop-clock-v1'', 3)]"
  using cache_status_timeout_degrades [of True True NoReply]
    cache_status_timeout_degrades [of True True "ReplyAt 5001 [(''desktop-clock-v1'', 3)]"]
    cache_status_timeout_degrades [of False True "ReplyAt 10 [(''desktop-clock-v1'', 3)]"]
    cache_status_timeout_degrades [of True False "ReplyAt 4999 [(''desktop-clock-v1'', 3)]"]
  by simp


section \<open>Properties of the double arithmetic\<close>

lemma bit_length_0: "bit_length 0 = 0"
  by (simp add: bit_length.simps)

lemma bit_length_upper: "N < 2 ^ bit_length N"
proof (induction N rule: bit_length.induct)
  case (1 n)
  show ?case
  proof (cases "n = 0")
    case True
    then show ?thesis by (simp add: bit_length.simps)
  next
    case False
    then have "n div 2 < 2 ^ bit_length (n div 2)" by (rule 1)
    then have "n < 2 * 2 ^ bit_length (n div 2)" by linarith
    then show ?thesis using False by (simp add: bit_length.simps [of n])
  qed
qed

lemma bit_length_lower: "0 < N \<Longrightarrow> 2 ^ (bit_length N - 1) \<le> N"
proof (induction N rule: bit_length.induct)
  case (1 n)
  then have pos: "n \<noteq> 0" by simp
  show ?case
  proof (cases "n div 2 = 0")
    case True
    then show ?thesis using pos by (simp add: bit_length.simps [of n] bit_length_0)
  next
    case False
    then have "2 ^ (bit_length (n div 2) - 1) \<le> n div 2" using 1 pos by simp
    then have "2 * 2 ^ (bit_length (n div 2) - 1) \<le> n" by linarith
    moreover have "0 < bit_length (n div 2)"
      using False by (simp add: bit_length.simps [of "n div 2"])
    ultimately show ?thesis
      using pos by (simp add: bit_length.simps [of n] flip: power_Suc)
  qed
qed

lemma bit_length_le: "N < 2 ^ k \<Longrightarrow> bit_length N \<le> k"
proof (rule ccontr)
  assume less: "N < 2 ^ k" and "\<not> bit_length N \<le> k"
  then have k: "k \<le> bit_length N - 1" and pos: "0 < N"
    by (auto simp add: bit_length_0 intro: ccontr)
  have "(2::nat) ^ k \<le> 2 ^ (bit_length N - 1)"
    using k by (simp add: power_increasing)
  also have "\<dots> \<le> N" using pos by (rule bit_length_lower)
  finally show False using less by simp
qed

lemma round_to_bits_unfold:
  "\<not> bit_length N \<le> p \<Longrightarrow> s = bit_length N - p \<Longrightarrow>
   round_to_bits p N =
     (if 2 ^ s < 2 * (N mod 2 ^ s) \<or> (2 * (N mod 2 ^ s) = 2 ^ s \<and> odd (N div 2 ^ s))
      then N div 2 ^ s + 1 else N div 2 ^ s) * 2 ^ s"
  by (simp add: round_to_bits_def Let_def)

text \<open>The rounding moves a number by at most half a unit of its last kept bit.\<close>

lemma round_to_bits_error:
  assumes "0 < p"
  shows "round_to_bits p N * 2 ^ p \<le> N * 2 ^ p + N"
    and "N * 2 ^ p \<le> round_to_bits p N * 2 ^ p + N"
proof -
  have both: "round_to_bits p N * 2 ^ p \<le> N * 2 ^ p + N \<and>
              N * 2 ^ p \<le> round_to_bits p N * 2 ^ p + N"
  proof (cases "bit_length N \<le> p")
    case True
    then show ?thesis by (simp add: round_to_bits_def)
  next
    case False
    define s where "s = bit_length N - p"
    define q where "q = N div 2 ^ s"
    define rest where "rest = N mod 2 ^ s"
    define A where "A = q * 2 ^ s"
    define h where "h = (2::nat) ^ (s - 1)"
    have s: "0 < s" using False by (simp add: s_def)
    then have two_h: "(2::nat) ^ s = 2 * h"
      by (cases s) (simp_all add: h_def)
    have N: "N = A + rest"
      using div_mult_mod_eq [of N "2 ^ s"] by (simp add: A_def q_def rest_def)
    have rest: "rest < 2 * h"
      unfolding rest_def two_h [symmetric] by simp
    have "0 < N" using False by (auto simp add: bit_length_0 intro: ccontr)
    then have "2 ^ (bit_length N - 1) \<le> N" by (rule bit_length_lower)
    moreover have "bit_length N - 1 = (s - 1) + p"
      using False s by (simp add: s_def)
    ultimately have hP: "h * 2 ^ p \<le> N"
      by (simp add: h_def power_add)
    have r: "round_to_bits p N =
        (if 2 ^ s < 2 * rest \<or> (2 * rest = 2 ^ s \<and> odd q) then q + 1 else q) * 2 ^ s"
      unfolding q_def rest_def using False s_def by (rule round_to_bits_unfold)
    have NP: "N * 2 ^ p = A * 2 ^ p + rest * 2 ^ p"
      by (simp add: N algebra_simps)
    have "rest * 2 ^ p \<le> (2 * h) * 2 ^ p"
      using rest by (intro mult_le_mono1) simp
    then have rest2: "rest * 2 ^ p \<le> 2 * (h * 2 ^ p)"
      by (simp add: algebra_simps)
    show ?thesis
    proof (cases "2 ^ s < 2 * rest \<or> (2 * rest = 2 ^ s \<and> odd q)")
      case True
      then have "h \<le> rest" by (auto simp add: two_h)
      then have up: "h * 2 ^ p \<le> rest * 2 ^ p" by simp
      have "round_to_bits p N = (q + 1) * 2 ^ s"
        using True by (simp add: r)
      also have "\<dots> = A + 2 ^ s"
        by (simp add: A_def algebra_simps)
      finally have "round_to_bits p N = A + 2 * h"
        by (simp only: two_h)
      then have RP: "round_to_bits p N * 2 ^ p = A * 2 ^ p + 2 * (h * 2 ^ p)"
        by (simp add: algebra_simps)
      show ?thesis
        unfolding RP NP using hP up rest2 by linarith
    next
      case False
      then have "rest \<le> h" by (auto simp add: two_h)
      then have down: "rest * 2 ^ p \<le> h * 2 ^ p" by simp
      have "round_to_bits p N = A"
        using False by (simp add: r A_def)
      then have RP: "round_to_bits p N * 2 ^ p = A * 2 ^ p"
        by simp
      show ?thesis
        unfolding RP NP using hP down by linarith
    qed
  qed
  show "round_to_bits p N * 2 ^ p \<le> N * 2 ^ p + N" using both by simp
  show "N * 2 ^ p \<le> round_to_bits p N * 2 ^ p + N" using both by simp
qed

text \<open>A number of at most \<open>p\<close> significant bits is left as it is.\<close>

lemma bit_length_shift: "0 < m \<Longrightarrow> bit_length (m * 2 ^ s) = bit_length m + s"
proof (induction s)
  case 0
  then show ?case by simp
next
  case (Suc s)
  have nz: "m * 2 ^ Suc s \<noteq> 0"
    using Suc.prems by simp
  have half: "(m * 2 ^ Suc s) div 2 = m * 2 ^ s"
    by simp
  have "bit_length (m * 2 ^ Suc s) = Suc (bit_length (m * 2 ^ s))"
    by (subst bit_length.simps) (simp only: nz half if_False)
  then show ?case
    using Suc by simp
qed

lemma round_to_bits_exact:
  assumes "m < 2 ^ p"
  shows "round_to_bits p (m * 2 ^ s) = m * 2 ^ s"
proof (cases "bit_length (m * 2 ^ s) \<le> p")
  case True
  then show ?thesis by (simp add: round_to_bits_def)
next
  case False
  then have pos: "0 < m" by (auto simp add: bit_length_0 intro: ccontr)
  have "bit_length m \<le> p" using assms by (rule bit_length_le)
  then have "bit_length (m * 2 ^ s) - p \<le> s"
    using pos by (simp add: bit_length_shift)
  then obtain d where d: "s = (bit_length (m * 2 ^ s) - p) + d"
    by (metis le_Suc_ex)
  define t where "t = bit_length (m * 2 ^ s) - p"
  have t: "0 < t" using False by (simp add: t_def)
  have eq: "m * 2 ^ s = (m * 2 ^ d) * 2 ^ t"
    using d by (simp add: t_def [symmetric] power_add)
  have rest: "(m * 2 ^ s) mod 2 ^ t = 0" and q: "(m * 2 ^ s) div 2 ^ t = m * 2 ^ d"
    by (simp_all add: eq)
  have "round_to_bits p (m * 2 ^ s) =
      (if 2 ^ t < 2 * ((m * 2 ^ s) mod 2 ^ t) \<or>
          (2 * ((m * 2 ^ s) mod 2 ^ t) = 2 ^ t \<and> odd ((m * 2 ^ s) div 2 ^ t))
       then (m * 2 ^ s) div 2 ^ t + 1 else (m * 2 ^ s) div 2 ^ t) * 2 ^ t"
    using False t_def by (rule round_to_bits_unfold)
  also have "\<dots> = (m * 2 ^ d) * 2 ^ t"
    unfolding rest q by simp
  finally show ?thesis by (simp add: eq)
qed

text \<open>The largest number below \<open>2 ^ e\<close> that the rounding leaves as it is.\<close>

lemma below_power_gap:
  assumes "K < 2 ^ e" and "round_to_bits p K = K" and "0 < p" and "p \<le> e"
  shows "K * 2 ^ p + 2 ^ e \<le> 2 ^ e * 2 ^ p"
proof -
  have e: "(2::nat) ^ e = 2 ^ (e - p) * 2 ^ p"
    using assms(4) by (simp flip: power_add)
  have b: "bit_length K \<le> e"
    using assms(1) by (rule bit_length_le)
  have "K + 2 ^ (e - p) \<le> 2 ^ e"
  proof (cases "bit_length K < e")
    case True
    then have "bit_length K \<le> e - 1" by simp
    then have "(2::nat) ^ bit_length K \<le> 2 ^ (e - 1)"
      by (simp add: power_increasing)
    then have "K < 2 ^ (e - 1)"
      using bit_length_upper [of K] by (rule less_le_trans [rotated])
    moreover have "(2::nat) ^ (e - p) \<le> 2 ^ (e - 1)"
      using assms(3) by (simp add: power_increasing)
    moreover have "(2::nat) ^ e = 2 ^ (e - 1) + 2 ^ (e - 1)"
      using True by (cases e) simp_all
    ultimately show ?thesis by linarith
  next
    case False
    with b have be: "bit_length K = e" by simp
    show ?thesis
    proof (cases "e \<le> p")
      case True
      then show ?thesis using assms(1) by simp
    next
      case False
      then have big: "\<not> bit_length K \<le> p" by (simp add: be)
      have s: "e - p = bit_length K - p" by (simp add: be)
      have "round_to_bits p K =
          (if 2 ^ (e - p) < 2 * (K mod 2 ^ (e - p)) \<or>
              (2 * (K mod 2 ^ (e - p)) = 2 ^ (e - p) \<and> odd (K div 2 ^ (e - p)))
           then K div 2 ^ (e - p) + 1 else K div 2 ^ (e - p)) * 2 ^ (e - p)"
        using big s by (rule round_to_bits_unfold)
      then obtain q where q: "K = q * 2 ^ (e - p)"
        using assms(2) by metis
      have "q * 2 ^ (e - p) < 2 ^ p * 2 ^ (e - p)"
        using assms(1) q by (simp add: e mult.commute)
      then have "q < 2 ^ p" by simp
      then have "q + 1 \<le> 2 ^ p" by simp
      then have "(q + 1) * 2 ^ (e - p) \<le> 2 ^ p * 2 ^ (e - p)"
        by (rule mult_le_mono1)
      then show ?thesis
        by (simp add: q e algebra_simps)
    qed
  qed
  then have "(K + 2 ^ (e - p)) * 2 ^ p \<le> 2 ^ e * 2 ^ p"
    by (rule mult_le_mono1)
  then show ?thesis
    by (simp add: e algebra_simps)
qed


lemma double_grid_pos: "0 < double_grid"
  by (simp add: double_grid_def)

lemma random_index_div:
  "random_index r n = round_to_bits 53 (nat \<lfloor>r * real double_grid\<rfloor> * n) div double_grid"
  by (simp add: random_index_def double_times_def floor_divide_of_nat_eq)

text \<open>A draw is \<open>K / 2 ^ 1074\<close> for a number \<open>K\<close> below \<open>2 ^ 1074\<close> of at most 53 significant bits.\<close>

lemma draw_numerator:
  assumes "is_draw r"
  shows "r = real (nat \<lfloor>r * real double_grid\<rfloor>) / real double_grid"
    and "nat \<lfloor>r * real double_grid\<rfloor> < double_grid"
    and "round_to_bits 53 (nat \<lfloor>r * real double_grid\<rfloor>) = nat \<lfloor>r * real double_grid\<rfloor>"
proof -
  have on_grid: "real (nat \<lfloor>r * real double_grid\<rfloor>) = r * real double_grid"
    using assms by (simp add: is_draw_def is_double_def)
  show "r = real (nat \<lfloor>r * real double_grid\<rfloor>) / real double_grid"
    unfolding on_grid using double_grid_pos by simp
  have "r * real double_grid < 1 * real double_grid"
    using assms double_grid_pos by (intro mult_strict_right_mono) (simp_all add: is_draw_def)
  then have "real (nat \<lfloor>r * real double_grid\<rfloor>) < real double_grid"
    unfolding on_grid by simp
  then show "nat \<lfloor>r * real double_grid\<rfloor> < double_grid"
    by (simp only: of_nat_less_iff)
  show "round_to_bits 53 (nat \<lfloor>r * real double_grid\<rfloor>) = nat \<lfloor>r * real double_grid\<rfloor>"
    using assms by (simp add: is_draw_def is_double_def)
qed

text \<open>The double product of a draw and \<open>n\<close>, in numerators: within \<open>1 / 2 ^ 53\<close> of the product.\<close>

lemma product_rounding:
  "round_to_bits 53 (K * n) * 2 ^ 53 \<le> K * n * 2 ^ 53 + K * n"
  "K * n * 2 ^ 53 \<le> round_to_bits 53 (K * n) * 2 ^ 53 + K * n"
  using round_to_bits_error [of 53 "K * n"] by simp_all

lemma random_index_less:
  assumes "is_draw r" and "0 < n"
  shows "random_index r n < n"
proof -
  define K where "K = nat \<lfloor>r * real double_grid\<rfloor>"
  have num: "nat \<lfloor>r * real double_grid\<rfloor> = K"
    by (simp add: K_def)
  have K: "K < double_grid" and fixed: "round_to_bits 53 K = K"
    unfolding K_def using assms(1) by (rule draw_numerator)+
  define R where "R = round_to_bits 53 (K * n)"
  have gap: "K * 2 ^ 53 + double_grid \<le> double_grid * 2 ^ 53"
    unfolding double_grid_def using K fixed
    by (intro below_power_gap) (simp_all add: double_grid_def)
  have up: "R * 2 ^ 53 \<le> K * n * 2 ^ 53 + K * n"
    unfolding R_def by (rule product_rounding)
  have "R < double_grid * n"
  proof (rule ccontr)
    assume "\<not> R < double_grid * n"
    then have "double_grid * n * 2 ^ 53 \<le> R * 2 ^ 53"
      by (intro mult_le_mono1) simp
    from this up have 1: "double_grid * n * 2 ^ 53 \<le> K * n * 2 ^ 53 + K * n"
      by (rule le_trans)
    have "(K * 2 ^ 53 + double_grid) * n \<le> (double_grid * 2 ^ 53) * n"
      using gap by (rule mult_le_mono1)
    then have 2: "K * n * 2 ^ 53 + double_grid * n \<le> double_grid * n * 2 ^ 53"
      by (simp add: algebra_simps)
    have 3: "K * n < double_grid * n"
      using K assms(2) by simp
    from 1 2 3 show False by linarith
  qed
  then have "R div double_grid < n"
    using double_grid_pos by (simp add: less_mult_imp_div_less mult.commute)
  then show ?thesis
    by (simp add: random_index_div num R_def)
qed

lemma random_index_bounds:
  assumes "is_draw r"
  shows "real (random_index r n) \<le> r * real n * (1 + 1 / 2 ^ 53)"
    and "r * real n * (1 - 1 / 2 ^ 53) < real (random_index r n) + 1"
proof -
  define K where "K = nat \<lfloor>r * real double_grid\<rfloor>"
  have num: "nat \<lfloor>r * real double_grid\<rfloor> = K"
    by (simp add: K_def)
  have r: "r = real K / real double_grid"
    unfolding K_def using assms by (rule draw_numerator)
  define R where "R = round_to_bits 53 (K * n)"
  define i where "i = R div double_grid"
  define G where "G = real double_grid"
  have G: "0 < G" using double_grid_pos by (simp add: G_def)
  have i: "random_index r n = i"
    by (simp add: random_index_div num R_def i_def)
  have "i * double_grid \<le> R"
    by (simp add: i_def)
  then have low: "real i * G \<le> real R"
    unfolding G_def by (metis of_nat_le_iff of_nat_mult)
  have "R mod double_grid < double_grid"
    using double_grid_pos by simp
  moreover have "R = i * double_grid + R mod double_grid"
    by (simp add: i_def)
  ultimately have "R < i * double_grid + double_grid"
    by linarith
  then have "R < (i + 1) * double_grid"
    by (simp add: algebra_simps)
  then have high: "real R < (real i + 1) * G"
    unfolding G_def by (metis of_nat_less_iff of_nat_mult of_nat_add of_nat_1)
  have "R * 2 ^ 53 \<le> K * n * 2 ^ 53 + K * n"
    unfolding R_def by (rule product_rounding)
  then have "real (R * 2 ^ 53) \<le> real (K * n * 2 ^ 53 + K * n)"
    by (rule of_nat_mono)
  then have up: "real R * 2 ^ 53 \<le> real K * real n * 2 ^ 53 + real K * real n"
    by simp
  have "K * n * 2 ^ 53 \<le> R * 2 ^ 53 + K * n"
    unfolding R_def by (rule product_rounding)
  then have "real (K * n * 2 ^ 53) \<le> real (R * 2 ^ 53 + K * n)"
    by (rule of_nat_mono)
  then have down: "real K * real n * 2 ^ 53 \<le> real R * 2 ^ 53 + real K * real n"
    by simp
  have "real i * G * 2 ^ 53 \<le> real R * 2 ^ 53"
    using low by simp
  with up have "real i * G * 2 ^ 53 \<le> real K * real n * 2 ^ 53 + real K * real n"
    by linarith
  then have "real i \<le> (real K / G) * real n * (1 + 1 / 2 ^ 53)"
    using G by (simp add: field_simps)
  then show "real (random_index r n) \<le> r * real n * (1 + 1 / 2 ^ 53)"
    unfolding i G_def r [symmetric] .
  have "real R * 2 ^ 53 < (real i + 1) * G * 2 ^ 53"
    using high by simp
  with down have "real K * real n * 2 ^ 53 < (real i + 1) * G * 2 ^ 53 + real K * real n"
    by linarith
  then have "(real K / G) * real n * (1 - 1 / 2 ^ 53) < real i + 1"
    using G by (simp add: field_simps)
  then show "r * real n * (1 - 1 / 2 ^ 53) < real (random_index r n) + 1"
    unfolding i G_def r [symmetric] .
qed

text \<open>Draws with few bits, whose products are exact.\<close>

lemma double_grid_split:
  "j \<le> 1074 \<Longrightarrow> double_grid = 2 ^ j * 2 ^ (1074 - j)"
  unfolding double_grid_def by (simp only: flip: power_add) simp

lemma dyadic_numerator:
  assumes "j \<le> 1074"
  shows "real m / 2 ^ j * real double_grid = real (m * 2 ^ (1074 - j))"
    and "nat \<lfloor>real m / 2 ^ j * real double_grid\<rfloor> = m * 2 ^ (1074 - j)"
proof -
  have "real double_grid = real (2 ^ j * 2 ^ (1074 - j))"
    using double_grid_split [OF assms] by (rule arg_cong)
  also have "\<dots> = 2 ^ j * 2 ^ (1074 - j)"
    by simp
  finally show eq: "real m / 2 ^ j * real double_grid = real (m * 2 ^ (1074 - j))"
    by simp
  show "nat \<lfloor>real m / 2 ^ j * real double_grid\<rfloor> = m * 2 ^ (1074 - j)"
    unfolding eq by (simp only: floor_of_nat nat_int)
qed

lemma is_draw_dyadic:
  assumes "m < 2 ^ 53" and "j \<le> 1074" and "m < 2 ^ j"
  shows "is_draw (real m / 2 ^ j)"
proof -
  have fixed: "round_to_bits 53 (m * 2 ^ (1074 - j)) = m * 2 ^ (1074 - j)"
    using assms(1) by (rule round_to_bits_exact)
  have "is_double (real m / 2 ^ j)"
    unfolding is_double_def dyadic_numerator [OF assms(2)]
    by (simp only: floor_of_nat nat_int fixed simp_thms)
  moreover have "real m < 2 ^ j"
    using assms(3) by (metis of_nat_less_iff of_nat_numeral of_nat_power)
  then have "real m / 2 ^ j < 1"
    by simp
  moreover have "0 \<le> real m / 2 ^ j"
    by simp
  ultimately show ?thesis
    unfolding is_draw_def by blast
qed

lemma random_index_dyadic:
  assumes "m * n < 2 ^ 53" and "j \<le> 1074"
  shows "random_index (real m / 2 ^ j) n = (m * n) div 2 ^ j"
proof -
  have fixed: "round_to_bits 53 ((m * n) * 2 ^ (1074 - j)) = (m * n) * 2 ^ (1074 - j)"
    using assms(1) by (rule round_to_bits_exact)
  have swap: "m * 2 ^ (1074 - j) * n = (m * n) * 2 ^ (1074 - j)"
    by (simp add: algebra_simps)
  have "random_index (real m / 2 ^ j) n =
      round_to_bits 53 (m * 2 ^ (1074 - j) * n) div double_grid"
    unfolding random_index_div dyadic_numerator(2) [OF assms(2)] ..
  also have "\<dots> = ((m * n) * 2 ^ (1074 - j)) div double_grid"
    unfolding swap fixed ..
  also have "\<dots> = (m * n) div 2 ^ j"
    unfolding double_grid_split [OF assms(2)] by simp
  finally show ?thesis .
qed

text \<open>The rounding commutes with a shift.\<close>

lemma round_to_bits_shift:
  "round_to_bits p (M * 2 ^ s) = round_to_bits p M * 2 ^ s"
proof (cases "bit_length M \<le> p")
  case True
  then have "M < 2 ^ p"
    using bit_length_upper [of M]
    by (meson less_le_trans power_increasing one_le_numeral)
  then have "round_to_bits p (M * 2 ^ s) = M * 2 ^ s"
    by (rule round_to_bits_exact)
  then show ?thesis
    using True by (simp add: round_to_bits_def)
next
  case False
  then have pos: "0 < M"
    by (auto simp add: bit_length_0 intro: ccontr)
  define t where "t = bit_length M - p"
  have len: "bit_length (M * 2 ^ s) = bit_length M + s"
    using pos by (rule bit_length_shift)
  have big: "\<not> bit_length (M * 2 ^ s) \<le> p"
    using False by (simp add: len)
  have ts: "t + s = bit_length (M * 2 ^ s) - p"
    using False by (simp add: len t_def)
  have q: "(M * 2 ^ s) div 2 ^ (t + s) = M div 2 ^ t"
    by (simp add: power_add)
  have rest: "(M * 2 ^ s) mod 2 ^ (t + s) = (M mod 2 ^ t) * 2 ^ s"
    by (simp add: power_add)
  have c1: "((2::nat) ^ (t + s) < 2 * ((M mod 2 ^ t) * 2 ^ s)) = (2 ^ t < 2 * (M mod 2 ^ t))"
    by (simp add: power_add)
  have c2: "(2 * ((M mod 2 ^ t) * 2 ^ s) = (2::nat) ^ (t + s)) = (2 * (M mod 2 ^ t) = 2 ^ t)"
    by (simp add: power_add)
  have "round_to_bits p (M * 2 ^ s) =
      (if 2 ^ (t + s) < 2 * ((M * 2 ^ s) mod 2 ^ (t + s)) \<or>
          (2 * ((M * 2 ^ s) mod 2 ^ (t + s)) = 2 ^ (t + s) \<and> odd ((M * 2 ^ s) div 2 ^ (t + s)))
       then (M * 2 ^ s) div 2 ^ (t + s) + 1 else (M * 2 ^ s) div 2 ^ (t + s)) * 2 ^ (t + s)"
    using big ts by (rule round_to_bits_unfold)
  also have "\<dots> =
      (if 2 ^ t < 2 * (M mod 2 ^ t) \<or> (2 * (M mod 2 ^ t) = 2 ^ t \<and> odd (M div 2 ^ t))
       then M div 2 ^ t + 1 else M div 2 ^ t) * 2 ^ t * 2 ^ s"
    unfolding q rest c1 c2 by (simp add: power_add)
  also have "\<dots> = round_to_bits p M * 2 ^ s"
    using False t_def by (simp add: round_to_bits_unfold)
  finally show ?thesis .
qed

lemma random_index_scaled:
  assumes "j \<le> 1074"
  shows "random_index (real m / 2 ^ j) n = round_to_bits 53 (m * n) div 2 ^ j"
proof -
  have swap: "m * 2 ^ (1074 - j) * n = (m * n) * 2 ^ (1074 - j)"
    by (simp add: algebra_simps)
  have "random_index (real m / 2 ^ j) n =
      round_to_bits 53 (m * 2 ^ (1074 - j) * n) div double_grid"
    unfolding random_index_div dyadic_numerator(2) [OF assms] ..
  also have "\<dots> = (round_to_bits 53 (m * n) * 2 ^ (1074 - j)) div (2 ^ j * 2 ^ (1074 - j))"
    unfolding swap round_to_bits_shift double_grid_split [OF assms] ..
  also have "\<dots> = round_to_bits 53 (m * n) div 2 ^ j"
    by simp
  finally show ?thesis .
qed

lemma bit_length_numeral_example: "bit_length 18014398509481983 = 54"
  by (simp add: bit_length.simps)

lemma rounded_up_example: "random_index (6004799503160661 / 2 ^ 53) 3 = 2"
  using random_index_scaled [of 53 6004799503160661 3]
  by (simp add: round_to_bits_def bit_length_numeral_example)

section \<open>Properties of the rotation hook\<close>

text \<open>
  The state updates of one turn of the event loop take effect together, and a tick of the
  interval reads the images of the state it runs in; the states considered are those
  between the turns.
\<close>

lemma element_drawn:
  assumes "is_draw r" and "xs \<noteq> []"
  shows "element xs (random_index r (length xs)) = Some (xs ! random_index r (length xs))"
    and "xs ! random_index r (length xs) \<in> set xs"
  using random_index_less [OF assms(1), of "length xs"] assms(2)
  by (simp_all add: element_def)

lemma begin_keeps: "current_is_available s \<Longrightarrow> current_is_available (loadImages_begin categories s)"
  by (simp add: current_is_available_def loadImages_begin_def split: option.splits)

lemma resolved_keeps:
  "is_draw r \<Longrightarrow> current_is_available (fst (loadImages_resolved res r ps s))"
  by (cases res)
     (simp_all add: current_is_available_def loadImages_resolved_def Let_def element_drawn)

lemma finally_keeps: "current_is_available s \<Longrightarrow> current_is_available (loadImages_finally s)"
  by (simp add: current_is_available_def loadImages_finally_def split: option.splits)

lemma nextImage_keeps:
  "is_draw r \<Longrightarrow> current_is_available s \<Longrightarrow> current_is_available (fst (nextImage r p1 p2 s))"
  by (simp add: current_is_available_def nextImage_def Let_def element_drawn)

lemma step_keeps:
  "draws_ok e \<Longrightarrow> current_is_available s \<Longrightarrow> current_is_available (step e s)"
  by (cases e)
     (simp_all add: begin_keeps resolved_keeps finally_keeps nextImage_keeps interval_tick_def)

lemma run_keeps:
  "list_all draws_ok es \<Longrightarrow> current_is_available s \<Longrightarrow> current_is_available (run es s)"
  unfolding run_def
  by (induction es arbitrary: s) (simp_all add: step_keeps)

lemma loadImages_as_run:
  "categories \<noteq> [] \<Longrightarrow>
   loadImages categories res r ps s =
   (case snd (loadImages_resolved res r ps (loadImages_begin categories s)) of
      None \<Rightarrow> run [CategoriesChanged categories, ResolverSettled res r ps] s
    | Some preload \<Rightarrow> run [CategoriesChanged categories, ResolverSettled res r ps, PreloadSettled] s)"
  by (simp add: loadImages_def run_def split: prod.split option.split)

lemma draw_values:
  "is_draw 0" "is_draw (1 / 2)" "is_draw (3 / 4)"
  "is_draw (6004799503160661 / 9007199254740992)"
  using is_draw_dyadic [of 0 0] is_draw_dyadic [of 1 1] is_draw_dyadic [of 3 2]
    is_draw_dyadic [of 6004799503160661 53]
  by simp_all

lemma index_values_numeral:
  "random_index 0 2 = 0" "random_index (1 / 2) 2 = 1" "random_index (3 / 4) 2 = 1"
  "random_index 0 3 = 0" "random_index (1 / 2) 3 = 1"
  "random_index (6004799503160661 / 9007199254740992) 3 = 2"
  using random_index_dyadic [of 0 2 0] random_index_dyadic [of 1 2 1]
    random_index_dyadic [of 3 2 2] random_index_dyadic [of 0 3 0]
    random_index_dyadic [of 1 3 1] rounded_up_example
  by simp_all

lemma index_values:
  "random_index 0 (Suc (Suc 0)) = 0" "random_index (1 / 2) (Suc (Suc 0)) = 1"
  "random_index (3 / 4) (Suc (Suc 0)) = 1"
  unfolding numeral_2_eq_2 [symmetric] by (rule index_values_numeral)+

lemma index_values_of_three:
  "random_index 0 (Suc (Suc (Suc 0))) = 0" "random_index (1 / 2) (Suc (Suc (Suc 0))) = 1"
  "random_index (6004799503160661 / 9007199254740992) (Suc (Suc (Suc 0))) = 2"
  unfolding numeral_3_eq_3 [symmetric] by (rule index_values_numeral)+

text \<open>
  Claim C2. From the initial state of the hook, after any sequence of category changes,
  answers of the resolver, settled preloads and ticks of the interval (their draws being
  values of \<open>Math.random()\<close>), the current image is one of the available images whenever
  there are any. In particular, for a selection that is not empty and a resolver that
  returns at least one image, \<open>loadImages\<close>, run from any state through its three turns,
  ends with the loading over, no error, the resolved images available, and the current
  image one of them, which is what the display shows.
\<close>

theorem current_image_is_available:
  "(list_all draws_ok es \<longrightarrow> current_is_available (run es initial_state))
   \<and> (categories \<noteq> [] \<and> images \<noteq> [] \<and> is_draw r \<longrightarrow>
        loadImages categories (Returned images errors) r ps s =
          run [CategoriesChanged categories, ResolverSettled (Returned images errors) r ps,
               PreloadSettled] s
        \<and> \<not> isLoading (loadImages categories (Returned images errors) r ps s)
        \<and> error (loadImages categories (Returned images errors) r ps s) = None
        \<and> availableImages (loadImages categories (Returned images errors) r ps s) = images
        \<and> (\<exists>i \<in> set images.
              currentImage (loadImages categories (Returned images errors) r ps s) = Some i
              \<and> Wallpaper categories True (loadImages categories (Returned images errors) r ps s)
                  = ImageView i))"
proof -
  have "current_is_available initial_state"
    by (simp add: current_is_available_def initial_state_def)
  then have reach: "list_all draws_ok es \<longrightarrow> current_is_available (run es initial_state)"
    by (simp add: run_keeps)
  have ready: ?thesis if "categories \<noteq> []" "images \<noteq> []" "is_draw r"
  proof -
    let ?s = "loadImages categories (Returned images errors) r ps s"
    let ?i = "images ! random_index r (length images)"
    have s: "?s = s\<lparr>isLoading := False, error := None, availableImages := images,
                    currentImage := Some ?i, currentIndex := random_index r (length images)\<rparr>"
      using that
      by (simp add: loadImages_def loadImages_begin_def loadImages_resolved_def
          loadImages_finally_def Let_def element_drawn)
    have f1: "\<not> isLoading ?s" and f2: "error ?s = None" and f3: "availableImages ?s = images"
      and f4: "currentImage ?s = Some ?i"
      by (simp_all add: s)
    have f5: "?i \<in> set images"
      using that by (simp add: element_drawn)
    have f6: "Wallpaper categories True ?s = ImageView ?i"
      using that by (simp add: s Wallpaper_def truthy_def hasImages_def)
    have f7: "?s = run [CategoriesChanged categories,
        ResolverSettled (Returned images errors) r ps, PreloadSettled] s"
      using that by (simp add: loadImages_as_run loadImages_resolved_def Let_def)
    show ?thesis
      using reach f1 f2 f3 f4 f5 f6 f7 by blast
  qed
  show ?thesis
    using reach ready by blast
qed


text \<open>
  The theorem at a run that selects a category, resolves it to two images, ends the
  preload and ticks once.
\<close>

theorem current_image_is_available_witness:
  "list_all draws_ok nature_events
   \<and> [''nature''] \<noteq> [] \<and> [a_image, b_image] \<noteq> [] \<and> is_draw (1 / 2)
   \<and> run nature_events initial_state =
       \<lparr>availableImages = [a_image, b_image], currentImage = Some a_image, currentIndex = 0,
        isLoading = False, error = None\<rparr>
   \<and> current_is_available (run nature_events initial_state)
   \<and> loadImages [''nature''] (Returned [a_image, b_image] []) (1 / 2) [0, 3 / 4] initial_state =
       \<lparr>availableImages = [a_image, b_image], currentImage = Some b_image, currentIndex = 1,
        isLoading = False, error = None\<rparr>"
  using current_image_is_available [of nature_events "[''nature'']" "[a_image, b_image]" "1 / 2"
      "[]" "[0, 3 / 4]" initial_state]
  by (simp add: nature_events_def draw_values index_values run_def initial_state_def
      loadImages_def loadImages_begin_def loadImages_resolved_def loadImages_finally_def
      interval_tick_def nextImage_def element_def Let_def current_is_available_def)

text \<open>
  Claim C3, as stated, fails: with two images available, a tick whose three draws all
  give the index 1 selects the second image and hands an empty list to the preload, not
  two images.
\<close>

theorem tick_preloads_nothing:
  "length (availableImages two_images) = 2
   \<and> snd (interval_tick True (1 / 2) (1 / 2) (3 / 4) two_images) = Some []
   \<and> currentIndex (fst (interval_tick True (1 / 2) (1 / 2) (3 / 4) two_images)) = 1"
  by (simp add: two_images_def interval_tick_def nextImage_def index_values element_def Let_def)

text \<open>
  Claim C3, amended. A tick of the interval with the rotation enabled and more than one
  image available:
  \<open>i\<close> being \<open>Math.floor\<close> of the double product of its draw \<open>r\<close> and the number \<open>n\<close> of
  images,
  \<^item> \<open>i\<close> is below \<open>n\<close>, and the image at the index \<open>i\<close> becomes the current one, the
    rest of the state unchanged;
  \<^item> \<open>i\<close> depends on the draw and on \<open>n\<close> only, whatever the previous index was, and
    lies where the draw falls among the \<open>n\<close> equal parts of the unit interval, up to
    the rounding of the product: \<open>i \<le> r n (1 + 1 / 2 ^ 53)\<close> and
    \<open>r n (1 - 1 / 2 ^ 53) < i + 1\<close>;
  \<^item> the images of two further draws are handed to the preload, without waiting for
    it, each left out when its index is \<open>i\<close>: at most 2 images, all available.
\<close>

theorem tick_picks_any_image:
  assumes "enabled" and "1 < length (availableImages s)"
    and "is_draw r" and "is_draw p1" and "is_draw p2"
  shows "interval_tick enabled r p1 p2 s =
           (s\<lparr>currentImage := Some (availableImages s ! random_index r (length (availableImages s))),
              currentIndex := random_index r (length (availableImages s))\<rparr>,
            Some (map (\<lambda>j. Some (availableImages s ! j))
                   (filter (\<lambda>j. j \<noteq> random_index r (length (availableImages s)))
                      [random_index p1 (length (availableImages s)),
                       random_index p2 (length (availableImages s))])))
       \<and> random_index r (length (availableImages s)) < length (availableImages s)
       \<and> real (random_index r (length (availableImages s)))
           \<le> r * real (length (availableImages s)) * (1 + 1 / 2 ^ 53)
       \<and> r * real (length (availableImages s)) * (1 - 1 / 2 ^ 53)
           < real (random_index r (length (availableImages s))) + 1
       \<and> (\<forall>pre. snd (interval_tick enabled r p1 p2 s) = Some pre \<longrightarrow>
               length pre \<le> 2 \<and> set pre \<subseteq> Some ` set (availableImages s))"
proof -
  let ?n = "length (availableImages s)"
  have n: "0 < ?n" and ne: "availableImages s \<noteq> []"
    using assms(2) by auto
  have less: "random_index q ?n < ?n" if "is_draw q" for q
    using that n by (rule random_index_less)
  have tick: "interval_tick enabled r p1 p2 s =
           (s\<lparr>currentImage := Some (availableImages s ! random_index r ?n),
              currentIndex := random_index r ?n\<rparr>,
            Some (map (\<lambda>j. Some (availableImages s ! j))
                   (filter (\<lambda>j. j \<noteq> random_index r ?n) [random_index p1 ?n, random_index p2 ?n])))"
    using assms less ne
    by (simp add: interval_tick_def nextImage_def Let_def element_def)
  have pre: "\<forall>pre. snd (interval_tick enabled r p1 p2 s) = Some pre \<longrightarrow>
               length pre \<le> 2 \<and> set pre \<subseteq> Some ` set (availableImages s)"
    using less [OF assms(4)] less [OF assms(5)] by (auto simp add: tick)
  show ?thesis
    using tick less [OF assms(3)] random_index_bounds [OF assms(3), of ?n] pre by blast
qed

text \<open>
  The theorem at two images, a tick to the second image and a tick to the first, and at
  three images with the draw 0.6666666666666666 (\<open>6004799503160661 / 2 ^ 53\<close>), whose
  product with 3 rounds to 2: the tick selects the third image.
\<close>

theorem tick_picks_any_image_witness:
  "1 < length (availableImages two_images) \<and> is_draw 0 \<and> is_draw (1 / 2) \<and> is_draw (3 / 4)
   \<and> interval_tick True (1 / 2) 0 (3 / 4) two_images =
       (\<lparr>availableImages = [a_image, b_image], currentImage = Some b_image, currentIndex = 1,
         isLoading = False, error = None\<rparr>, Some [Some a_image])
   \<and> interval_tick True 0 (1 / 2) (3 / 4) two_images =
       (\<lparr>availableImages = [a_image, b_image], currentImage = Some a_image, currentIndex = 0,
         isLoading = False, error = None\<rparr>, Some [Some b_image, Some b_image])
   \<and> 1 < length (availableImages three_images)
   \<and> is_draw (6004799503160661 / 9007199254740992)
   \<and> interval_tick True (6004799503160661 / 9007199254740992) 0 (1 / 2) three_images =
       (\<lparr>availableImages = [a_image, b_image, c_image], currentImage = Some c_image,
         currentIndex = 2, isLoading = False, error = None\<rparr>, Some [Some a_image, Some b_image])"
proof -
  have two: "1 < length (availableImages two_images)"
    by (simp add: two_images_def)
  have three: "1 < length (availableImages three_images)"
    by (simp add: three_images_def)
  note to_second =
    tick_picks_any_image [OF TrueI two draw_values(2) draw_values(1) draw_values(3),
      THEN conjunct1]
  note to_first =
    tick_picks_any_image [OF TrueI two draw_values(1) draw_values(2) draw_values(3),
      THEN conjunct1]
  note to_third =
    tick_picks_any_image [OF TrueI three draw_values(4) draw_values(1) draw_values(2),
      THEN conjunct1]
  show ?thesis
    using two three to_second to_first to_third
    by (simp add: two_images_def three_images_def draw_values index_values
        index_values_of_three)
qed

text \<open>
  Claim C4. With no category selected, \<open>loadImages\<close> returns in its first turn, from any
  state and whatever the resolver would have answered: no images, no current image, the
  loading over and no error. The display then shows its empty state with the text for an
  empty selection, not the error panel.
\<close>

theorem no_categories_is_not_an_error:
  "loadImages [] res r ps s = step (CategoriesChanged []) s
   \<and> availableImages (loadImages [] res r ps s) = []
   \<and> currentImage (loadImages [] res r ps s) = None
   \<and> currentIndex (loadImages [] res r ps s) = 0
   \<and> \<not> isLoading (loadImages [] res r ps s)
   \<and> error (loadImages [] res r ps s) = None
   \<and> \<not> hasImages (loadImages [] res r ps s)
   \<and> Wallpaper [] True (loadImages [] res r ps s) = EmptyView ''No wallpaper categories selected''"
  by (simp add: loadImages_def loadImages_begin_def hasImages_def Wallpaper_def truthy_def
      empty_text_def)

text \<open>The theorem from a state that shows an image.\<close>

theorem no_categories_is_not_an_error_witness:
  "loadImages [] (Threw None) 0 [] two_images =
     \<lparr>availableImages = [], currentImage = None, currentIndex = 0, isLoading = False,
      error = None\<rparr>
   \<and> Wallpaper [] True (loadImages [] (Threw None) 0 [] two_images) =
       EmptyView ''No wallpaper categories selected''"
  using no_categories_is_not_an_error [of "Threw None" 0 "[]" two_images]
  by (simp add: loadImages_def loadImages_begin_def two_images_def)

text \<open>
  Claim C5. With a selection that is not empty and a resolver that returns no image,
  \<open>loadImages\<close> ends, from any state, with the loading over, no available images, no
  current image and an error message that is not empty, which the display shows in its
  error panel.
\<close>

theorem no_images_is_an_error:
  assumes "categories \<noteq> []"
  shows "\<not> isLoading (loadImages categories (Returned [] errors) r ps s)
       \<and> availableImages (loadImages categories (Returned [] errors) r ps s) = []
       \<and> currentImage (loadImages categories (Returned [] errors) r ps s) = None
       \<and> \<not> hasImages (loadImages categories (Returned [] errors) r ps s)
       \<and> (\<exists>m. m \<noteq> [] \<and> error (loadImages categories (Returned [] errors) r ps s) = Some m
              \<and> Wallpaper categories True (loadImages categories (Returned [] errors) r ps s)
                  = ErrorView m)"
  using assms
  by (simp add: loadImages_def loadImages_begin_def loadImages_resolved_def hasImages_def
      Wallpaper_def truthy_def)

text \<open>
  The theorem at a resolver that reports two failed categories, and at one that reports
  none.
\<close>

theorem no_images_is_an_error_witness:
  "[''missing'', ''empty''] \<noteq> []
   \<and> loadImages [''missing'', ''empty''] (Returned [] [''missing'', ''empty'']) 0 [] two_images =
       \<lparr>availableImages = [], currentImage = None, currentIndex = 0, isLoading = False,
        error = Some ''No valid images found: missing, empty''\<rparr>
   \<and> loadImages [''missing''] (Returned [] []) 0 [] two_images =
       \<lparr>availableImages = [], currentImage = None, currentIndex = 0, isLoading = False,
        error = Some ''No images found for selected categories''\<rparr>"
  using no_images_is_an_error [of "[''missing'', ''empty'']" "[''missing'', ''empty'']" 0 "[]" two_images]
  by (simp add: loadImages_def loadImages_begin_def loadImages_resolved_def two_images_def)



end
